theory Spec2Isabelle
  imports Main "HOL-Library.Sublist"
begin

section \<open>The persistent completion-process provider (src/providers/LLMProvider.js)\<close>

text \<open>
  The provider is a JavaScript object driven by Node's event loop. The model is a
  record holding the object's fields together with the part of the runtime its
  callbacks use (armed timers, settled promises, parked callers, the subprocess I/O
  log). Every callback of the source is one function on that record; one macrotask of
  the event loop is \<open>step\<close>: the callback, followed by the promise reactions it
  queued (Node 20, the version of the Dockerfile, drains the microtask queue after
  every callback, timers included).

  Only the persistent mode is modelled (\<open>mode = 'persistent'\<close>, the default of the
  constructor); the API mode calls a remote service and shares only the statistics.
\<close>

subsection \<open>Data\<close>

datatype ProviderState = STOPPED | STARTING | READY | BUSY | ERROR

text \<open>
  A value produced by \<open>JSON.parse\<close>. The code never computes with a number: it only
  tests its truthiness and converts it to a string, so a number carries exactly these
  two observations. An object is its list of properties in source order.
\<close>

datatype json =
    JNull
  | JBool bool
  | JNum (num_truthy: bool) (num_text: string)
  | JStr string
  | JArr "json list"
  | JObj "(string \<times> json) list"

text \<open>Each call of \<open>_sendMessage\<close> creates one promise; it is named after who made the call.\<close>

datatype turn = WarmupTurn nat | CallerTurn nat

datatype js_error =
    ProcessNotRunning              \<comment> \<open>\<open>'Process not running'\<close>\<close>
  | TimeoutAfter nat               \<comment> \<open>\<open>`Timeout after ${this.timeout}ms`\<close>\<close>
  | ProcessExited                  \<comment> \<open>\<open>'Process exited unexpectedly'\<close>\<close>
  | ProviderNotReady ProviderState \<comment> \<open>\<open>`Provider not ready: ${this.state}`\<close>\<close>
  | ErrorMessage string            \<comment> \<open>\<open>new Error(errorMsg)\<close> of a turn-error message\<close>
  | SpawnError string              \<comment> \<open>the error of the child's \<open>'error'\<close> event\<close>

datatype outcome = Resolved json | Rejected js_error

datatype timer =
    TurnTimeout turn       \<comment> \<open>\<open>timeoutId\<close> of \<open>_sendMessage\<close>\<close>
  | WarmupTimeout nat      \<comment> \<open>\<open>warmupTimeout\<close> of the n-th start\<close>
  | CheckReady nat         \<comment> \<open>\<open>checkReady\<close>, the interval of a parked caller\<close>
  | ForceKillTimeout nat   \<comment> \<open>\<open>forceKillTimeout\<close> of the n-th shutdown\<close>
  | SigtermTimeout nat     \<comment> \<open>the anonymous 1000 ms timer of the n-th shutdown\<close>

datatype signal = SIGTERM | SIGKILL

datatype io =
    Spawn nat
  | StdinWrite nat string
  | StdinEnd nat
  | Kill nat signal

text \<open>
  The handle returned by \<open>spawn\<close>: \<open>handle\<close> numbers the spawns (an operating-system
  process identifier may be reused, the handle is not); \<open>pid\<close> is \<open>None\<close> when the
  process could not be started.
\<close>

record child =
  handle :: nat
  pid :: "nat option"
  stdin_writable :: bool

record Stats =
  completions :: nat
  totalTimeMs :: int
  avgTimeMs :: int
  errors :: nat
  coldStarts :: nat

record PendingPromise =
  turn :: turn
  response :: string
  startTime :: int

text \<open>Where a call of \<open>complete()\<close> is suspended, or how it ended.\<close>

datatype caller =
    AwaitInit nat string   \<comment> \<open>at \<open>await this.initialize()\<close>, with the prompt to send\<close>
  | Polling string         \<comment> \<open>at \<open>await new Promise\<close> with \<open>checkReady\<close> armed\<close>
  | AwaitTurn              \<comment> \<open>returned the promise of \<open>_sendMessage\<close>\<close>
  | Done outcome

record provider =
  process :: "child option"
  state :: ProviderState
  stdoutBuffer :: string
  pendingPromise :: "PendingPromise option"
  stats :: Stats
  timeout :: nat
  timers :: "timer set"
  settled :: "turn \<Rightarrow> outcome option"
  initSettled :: "nat \<Rightarrow> outcome option"
  initOwner :: "nat \<Rightarrow> nat option"
  callers :: "nat \<Rightarrow> caller option"
  readyListeners :: "nat list"
  errorListeners :: "nat list"
  waitSettled :: "nat \<Rightarrow> outcome option"
  shutdowns :: nat
  shutdownWatch :: "(nat \<times> nat) list"
  shutdownSettled :: "nat \<Rightarrow> bool"
  exited :: "nat set"
  crashed :: bool
  microtasks :: "(turn \<times> outcome) list"
  io :: "io list"
  opened :: "(turn \<times> turn list) list"

text \<open>
  What the runtime supplies: \<open>JSON.parse\<close> (\<open>None\<close> is a SyntaxError),
  \<open>JSON.stringify\<close>, and the handle that the n-th call of \<open>spawn\<close> returns.
\<close>

record runtime =
  JSON_parse :: "string \<Rightarrow> json option"
  JSON_stringify :: "json \<Rightarrow> string"
  spawn :: "nat \<Rightarrow> child"

text \<open>The constructor, for a given \<open>config.timeout\<close> (\<open>120000\<close> when absent or zero).\<close>

definition new_provider :: "nat \<Rightarrow> provider" where
  "new_provider t =
    \<lparr> process = None, state = STOPPED, stdoutBuffer = [], pendingPromise = None,
      stats = \<lparr> completions = 0, totalTimeMs = 0, avgTimeMs = 0, errors = 0, coldStarts = 0 \<rparr>,
      timeout = (if t = 0 then 120000 else t),
      timers = {}, settled = (\<lambda>_. None), initSettled = (\<lambda>_. None),
      initOwner = (\<lambda>_. None), callers = (\<lambda>_. None),
      readyListeners = [], errorListeners = [], waitSettled = (\<lambda>_. None),
      shutdowns = 0, shutdownWatch = [], shutdownSettled = (\<lambda>_. False),
      exited = {}, crashed = False, microtasks = [], io = [], opened = [] \<rparr>"

subsection \<open>JavaScript values\<close>

text \<open>
  \<open>v.k\<close> for a value that is neither \<open>null\<close> nor \<open>undefined\<close>, and a key among
  \<open>type\<close>, \<open>message\<close>, \<open>content\<close>, \<open>text\<close>, \<open>result\<close>, \<open>error\<close>: only an object can
  have it (no prototype defines one of these); \<open>None\<close> is \<open>undefined\<close>.
\<close>

definition get_prop :: "json \<Rightarrow> string \<Rightarrow> json option" where
  "get_prop v k = (case v of JObj kvs \<Rightarrow> map_of kvs k | _ \<Rightarrow> None)"

fun truthy :: "json option \<Rightarrow> bool" where
  "truthy None = False"
| "truthy (Some JNull) = False"
| "truthy (Some (JBool b)) = b"
| "truthy (Some (JNum t _)) = t"
| "truthy (Some (JStr s)) = (s \<noteq> [])"
| "truthy (Some (JArr _)) = True"
| "truthy (Some (JObj _)) = True"

fun join_comma :: "string list \<Rightarrow> string" where
  "join_comma [] = []"
| "join_comma [s] = s"
| "join_comma (s # t # ss) = s @ '','' @ join_comma (t # ss)"

text \<open>
  The string conversion behind \<open>+=\<close> on a string and \<open>new Error(v)\<close>; \<open>None\<close> is the
  TypeError \<open>Cannot convert object to primitive value\<close>. An object converts through
  its \<open>toString\<close> property: \<open>Object.prototype.toString\<close> gives \<open>[object Object]\<close>, but an
  own property of that name, which in a parsed value is never a function, leaves no
  method that returns a primitive (\<open>valueOf\<close> returns the object itself, or is not a
  function either). An array joins the conversions of its elements, \<open>null\<close> giving the
  empty string, and throws when one of them does.
\<close>

fun js_to_string :: "json \<Rightarrow> string option"
  and js_elements :: "json list \<Rightarrow> string list option" where
  "js_to_string JNull = Some ''null''"
| "js_to_string (JBool b) = Some (if b then ''true'' else ''false'')"
| "js_to_string (JNum _ s) = Some s"
| "js_to_string (JStr s) = Some s"
| "js_to_string (JArr vs) = map_option join_comma (js_elements vs)"
| "js_to_string (JObj kvs) =
     (if map_of kvs ''toString'' \<noteq> None then None else Some ''[object Object]'')"
| "js_elements [] = Some []"
| "js_elements (v # vs) =
     (case (if v = JNull then Some [] else js_to_string v) of
        None \<Rightarrow> None
      | Some t \<Rightarrow> (case js_elements vs of None \<Rightarrow> None | Some ts \<Rightarrow> Some (t # ts)))"

text \<open>
  \<open>String.prototype.trim\<close>. A \<open>char\<close> stands for a UTF-16 code unit below 256; the
  white space and line terminators in that range are these seven.
\<close>

definition is_space :: "char \<Rightarrow> bool" where
  "is_space c = (c \<in> {CHR 0x09, CHR 0x0A, CHR 0x0B, CHR 0x0C, CHR 0x0D, CHR 0x20, CHR 0xA0})"

definition trim :: "string \<Rightarrow> string" where
  "trim s = rev (dropWhile is_space (rev (dropWhile is_space s)))"

text \<open>\<open>s.split('\n')\<close>: never empty; the last element is what follows the last newline.\<close>

fun split_nl :: "string \<Rightarrow> string list" where
  "split_nl [] = [[]]"
| "split_nl (c # cs) =
     (if c = CHR 0x0A then [] # split_nl cs
      else (case split_nl cs of [] \<Rightarrow> [[c]] | l # ls \<Rightarrow> (c # l) # ls))"

text \<open>\<open>Math.round(a / n)\<close> for an integer \<open>a\<close> and \<open>n > 0\<close>: halves round up.\<close>

definition round_div :: "int \<Rightarrow> nat \<Rightarrow> int" where
  "round_div a n = (2 * a + int n) div (2 * int n)"

subsection \<open>Settling the promise of a turn\<close>

text \<open>
  \<open>pendingPromise.resolve\<close> and \<open>pendingPromise.reject\<close> (lines 279-286): clear the
  turn's timer, then settle the promise. The reaction of whoever awaits it is queued.
\<close>

definition settle :: "turn \<Rightarrow> outcome \<Rightarrow> provider \<Rightarrow> provider" where
  "settle t out w = w\<lparr> settled := (settled w)(t \<mapsto> out), microtasks := microtasks w @ [(t, out)] \<rparr>"

definition pending_resolve :: "PendingPromise \<Rightarrow> json \<Rightarrow> provider \<Rightarrow> provider" where
  "pending_resolve p v w = settle (turn p) (Resolved v) (w\<lparr> timers := timers w - {TurnTimeout (turn p)} \<rparr>)"

definition pending_reject :: "PendingPromise \<Rightarrow> js_error \<Rightarrow> provider \<Rightarrow> provider" where
  "pending_reject p e w = settle (turn p) (Rejected e) (w\<lparr> timers := timers w - {TurnTimeout (turn p)} \<rparr>)"

subsection \<open>\<open>_handleMessage\<close> and \<open>_handleStdout\<close>\<close>

text \<open>
  The loop over \<open>msg.message.content\<close>: returns the accumulator and whether a
  TypeError was thrown (\<open>block.type\<close> of \<open>null\<close>, or a text that does not convert to a
  string); what was appended before the throw stays appended.
\<close>

fun append_blocks :: "json list \<Rightarrow> string \<Rightarrow> string \<times> bool" where
  "append_blocks [] r = (r, False)"
| "append_blocks (b # bs) r =
     (if b = JNull then (r, True)
      else if get_prop b ''type'' = Some (JStr ''text'') \<and> truthy (get_prop b ''text'')
      then (case get_prop b ''text'' of
              Some t \<Rightarrow>
                (case js_to_string t of
                   Some s \<Rightarrow> append_blocks bs (r @ s)
                 | None \<Rightarrow> (r, True))
            | None \<Rightarrow> append_blocks bs r)
      else append_blocks bs r)"

text \<open>\<open>o?.k\<close>: \<open>undefined\<close> when \<open>o\<close> is \<open>undefined\<close> or \<open>null\<close>.\<close>

definition opt_prop :: "json option \<Rightarrow> string \<Rightarrow> json option" where
  "opt_prop ov k = (case ov of None \<Rightarrow> None | Some JNull \<Rightarrow> None | Some v \<Rightarrow> get_prop v k)"

text \<open>\<open>a || b\<close> on possibly undefined values.\<close>

definition js_or :: "json option \<Rightarrow> json option \<Rightarrow> json option" where
  "js_or a b = (if truthy a then a else b)"

definition set_response :: "string \<Rightarrow> provider \<Rightarrow> provider" where
  "set_response r w =
     w\<lparr> pendingPromise := map_option (\<lambda>p. p\<lparr> response := r \<rparr>) (pendingPromise w) \<rparr>"

definition handle_assistant :: "PendingPromise \<Rightarrow> json \<Rightarrow> provider \<Rightarrow> provider \<times> bool" where
  "handle_assistant p msg w =
     (let content = opt_prop (get_prop msg ''message'') ''content'' in
      if truthy content then
        (case content of
           Some (JArr bs) \<Rightarrow>
             (let (r, threw) = append_blocks bs (response p) in (set_response r w, threw))
         | Some (JStr _) \<Rightarrow> (w, False)
         | _ \<Rightarrow> (w, True))
      else (w, False))"

definition handle_result :: "int \<Rightarrow> PendingPromise \<Rightarrow> json \<Rightarrow> provider \<Rightarrow> provider" where
  "handle_result now p msg w =
     (let resp = (case js_or (js_or (Some (JStr (response p))) (get_prop msg ''result'')) (Some (JStr []))
                  of Some v \<Rightarrow> v | None \<Rightarrow> JStr []);
          elapsed = now - startTime p;
          n = completions (stats w) + 1;
          total = totalTimeMs (stats w) + elapsed;
          w1 = w\<lparr> stats := (stats w)\<lparr> completions := n, totalTimeMs := total,
                                      avgTimeMs := round_div total n \<rparr> \<rparr>;
          w2 = pending_resolve p resp w1
      in w2\<lparr> pendingPromise := None, state := READY \<rparr>)"

definition handle_error :: "PendingPromise \<Rightarrow> json \<Rightarrow> provider \<Rightarrow> provider \<times> bool" where
  "handle_error p msg w =
     (let w1 = w\<lparr> stats := (stats w)\<lparr> errors := errors (stats w) + 1 \<rparr> \<rparr>;
          errorMsg = (case js_or (js_or (opt_prop (get_prop msg ''error'') ''message'') (get_prop msg ''message''))
                                 (Some (JStr ''Unknown error''))
                      of Some v \<Rightarrow> v | None \<Rightarrow> JStr ''Unknown error'')
      in case js_to_string errorMsg of
           None \<Rightarrow> (w1, True)
         | Some text \<Rightarrow>
             ((pending_reject p (ErrorMessage text) w1)\<lparr> pendingPromise := None, state := READY \<rparr>,
              False))"

text \<open>
  \<open>_handleMessage\<close> (lines 214-260), with the current time. The second component
  says that a TypeError escaped (to the \<open>catch\<close> of \<open>_handleStdout\<close>).
\<close>

definition handleMessage :: "int \<Rightarrow> json \<Rightarrow> provider \<Rightarrow> provider \<times> bool" where
  "handleMessage now msg w =
     (case pendingPromise w of
        None \<Rightarrow> (w, False)
      | Some p \<Rightarrow>
          if msg = JNull then (w, True)
          else if get_prop msg ''type'' = Some (JStr ''assistant'') then handle_assistant p msg w
          else if get_prop msg ''type'' = Some (JStr ''result'') then (handle_result now p msg w, False)
          else if get_prop msg ''type'' = Some (JStr ''error'') then handle_error p msg w
          else (w, False))"

text \<open>The body of the loop of \<open>_handleStdout\<close>: the \<open>try\<close> swallows both kinds of error.\<close>

definition handle_line :: "runtime \<Rightarrow> int \<Rightarrow> provider \<Rightarrow> string \<Rightarrow> provider" where
  "handle_line rt now w line =
     (let trimmed = trim line in
      if trimmed = [] then w
      else (case JSON_parse rt trimmed of
              None \<Rightarrow> w
            | Some msg \<Rightarrow> fst (handleMessage now msg w)))"

text \<open>\<open>_handleStdout\<close> (lines 190-208); the chunk is given already decoded to a string.\<close>

definition handleStdout :: "runtime \<Rightarrow> int \<Rightarrow> string \<Rightarrow> provider \<Rightarrow> provider" where
  "handleStdout rt now data w =
     (let ls = split_nl (stdoutBuffer w @ data) in
      foldl (handle_line rt now) (w\<lparr> stdoutBuffer := last ls \<rparr>) (butlast ls))"

subsection \<open>\<open>_sendMessage\<close>\<close>

text \<open>The line written to the subprocess: the envelope, then one newline.\<close>

definition encode_user :: "runtime \<Rightarrow> string \<Rightarrow> string" where
  "encode_user rt content =
     JSON_stringify rt
       (JObj [(''type'', JStr ''user''),
              (''message'', JObj [(''role'', JStr ''user''), (''content'', JStr content)])])
     @ [CHR 0x0A]"

text \<open>The turns whose promise exists and is not settled.\<close>

definition open_turns :: "provider \<Rightarrow> turn list" where
  "open_turns w = filter (\<lambda>t. settled w t = None) (map fst (opened w))"

text \<open>
  \<open>_sendMessage\<close> (lines 266-304) for the promise named \<open>t\<close>: either throws, or arms
  the timer, installs the pending promise, sets \<open>BUSY\<close> and writes. The field
  \<open>opened\<close> is a history variable: it records each promise created, with the turns
  that were open at that moment.
\<close>

definition sendMessage :: "runtime \<Rightarrow> int \<Rightarrow> turn \<Rightarrow> string \<Rightarrow> provider \<Rightarrow> js_error + provider" where
  "sendMessage rt now t content w =
     (case process w of
        None \<Rightarrow> Inl ProcessNotRunning
      | Some pr \<Rightarrow>
          if \<not> stdin_writable pr then Inl ProcessNotRunning
          else Inr (w\<lparr> timers := insert (TurnTimeout t) (timers w),
                       pendingPromise := Some \<lparr> turn = t, response = [], startTime = now \<rparr>,
                       state := BUSY,
                       io := io w @ [StdinWrite (handle pr) (encode_user rt content)],
                       opened := opened w @ [(t, open_turns w)] \<rparr>))"

text \<open>The callback of \<open>timeoutId\<close> (lines 272-276); it calls the promise's own \<open>reject\<close>.\<close>

definition turn_timeout :: "turn \<Rightarrow> provider \<Rightarrow> provider" where
  "turn_timeout t w =
     settle t (Rejected (TimeoutAfter (timeout w))) (w\<lparr> pendingPromise := None, state := READY \<rparr>)"

subsection \<open>\<open>_persistentComplete\<close>, from its second \<open>if\<close>\<close>

text \<open>Lines 352-356: what runs once the caller is past both waits.\<close>

definition complete_send :: "runtime \<Rightarrow> int \<Rightarrow> nat \<Rightarrow> string \<Rightarrow> provider \<Rightarrow> provider" where
  "complete_send rt now c prompt w =
     (if state w \<noteq> READY
      then w\<lparr> callers := (callers w)(c \<mapsto> Done (Rejected (ProviderNotReady (state w)))) \<rparr>
      else (case sendMessage rt now (CallerTurn c) prompt w of
              Inl e \<Rightarrow> w\<lparr> callers := (callers w)(c \<mapsto> Done (Rejected e)) \<rparr>
            | Inr w' \<Rightarrow> w'\<lparr> callers := (callers w')(c \<mapsto> AwaitTurn) \<rparr>))"

text \<open>Lines 340-356: park on \<open>checkReady\<close> when busy.\<close>

definition complete_wait :: "runtime \<Rightarrow> int \<Rightarrow> nat \<Rightarrow> string \<Rightarrow> provider \<Rightarrow> provider" where
  "complete_wait rt now c prompt w =
     (if state w = BUSY
      then w\<lparr> timers := insert (CheckReady c) (timers w),
              callers := (callers w)(c \<mapsto> Polling prompt) \<rparr>
      else complete_send rt now c prompt w)"

text \<open>One tick of \<open>checkReady\<close> (lines 343-348) and, when it resolves, the rest of the call.\<close>

definition check_ready :: "runtime \<Rightarrow> int \<Rightarrow> nat \<Rightarrow> provider \<Rightarrow> provider" where
  "check_ready rt now c w =
     (if state w = READY
      then (case callers w c of
              Some (Polling prompt) \<Rightarrow>
                complete_send rt now c prompt (w\<lparr> timers := timers w - {CheckReady c} \<rparr>)
            | _ \<Rightarrow> w\<lparr> timers := timers w - {CheckReady c} \<rparr>)
      else w)"

subsection \<open>\<open>initialize\<close> and \<open>_startPersistentProcess\<close>\<close>

text \<open>
  Settling the promise returned by the k-th \<open>_startPersistentProcess\<close>; only the first
  settlement counts. A call of \<open>complete()\<close> suspended on it resumes.
\<close>

definition settle_init :: "runtime \<Rightarrow> int \<Rightarrow> nat \<Rightarrow> outcome \<Rightarrow> provider \<Rightarrow> provider" where
  "settle_init rt now k out w =
     (if initSettled w k \<noteq> None then w
      else
        (let w1 = w\<lparr> initSettled := (initSettled w)(k \<mapsto> out) \<rparr> in
         case initOwner w1 k of
           None \<Rightarrow> w1
         | Some c \<Rightarrow>
             (case callers w1 c of
                Some (AwaitInit k' prompt) \<Rightarrow>
                  (if k' \<noteq> k then w1
                   else (case out of
                           Resolved _ \<Rightarrow> complete_wait rt now c prompt w1
                         | Rejected e \<Rightarrow> w1\<lparr> callers := (callers w1)(c \<mapsto> Done (Rejected e)) \<rparr>))
              | _ \<Rightarrow> w1)))"

text \<open>
  \<open>this.emit('ready')\<close>: the listeners are the \<open>once('ready', ...)\<close> of calls of
  \<open>initialize()\<close> made in state \<open>STARTING\<close>; each resolves its promise with \<open>true\<close>.
\<close>

definition resolve_wait :: "outcome \<Rightarrow> provider \<Rightarrow> nat \<Rightarrow> provider" where
  "resolve_wait out w j =
     (if waitSettled w j = None then w\<lparr> waitSettled := (waitSettled w)(j \<mapsto> out) \<rparr> else w)"

definition emit_ready :: "provider \<Rightarrow> provider" where
  "emit_ready w =
     foldl (resolve_wait (Resolved (JBool True))) (w\<lparr> readyListeners := [] \<rparr>) (readyListeners w)"

text \<open>The callback of \<open>warmupTimeout\<close> (lines 152-159).\<close>

definition warmup_timeout :: "runtime \<Rightarrow> int \<Rightarrow> nat \<Rightarrow> provider \<Rightarrow> provider" where
  "warmup_timeout rt now k w =
     (if state w = STARTING
      then settle_init rt now k (Resolved (JBool True)) (emit_ready (w\<lparr> state := READY \<rparr>))
      else w)"

text \<open>The \<open>.then\<close> of the warmup turn (lines 163-169).\<close>

definition warmup_then :: "runtime \<Rightarrow> int \<Rightarrow> nat \<Rightarrow> provider \<Rightarrow> provider" where
  "warmup_then rt now k w =
     settle_init rt now k (Resolved (JBool True))
       (emit_ready (w\<lparr> timers := timers w - {WarmupTimeout k}, state := READY \<rparr>))"

text \<open>\<open>this.process?.pid\<close> as a condition.\<close>

definition has_pid :: "provider \<Rightarrow> bool" where
  "has_pid w = (case process w of
                  None \<Rightarrow> False
                | Some pr \<Rightarrow> (case pid pr of None \<Rightarrow> False | Some n \<Rightarrow> n \<noteq> 0))"

text \<open>The \<open>.catch\<close> of the warmup turn (lines 170-182).\<close>

definition warmup_catch :: "runtime \<Rightarrow> int \<Rightarrow> nat \<Rightarrow> js_error \<Rightarrow> provider \<Rightarrow> provider" where
  "warmup_catch rt now k err w =
     (let w1 = w\<lparr> timers := timers w - {WarmupTimeout k} \<rparr> in
      if has_pid w1
      then settle_init rt now k (Resolved (JBool True)) (emit_ready (w1\<lparr> state := READY \<rparr>))
      else settle_init rt now k (Rejected err) (w1\<lparr> state := ERROR \<rparr>))"

text \<open>
  \<open>_startPersistentProcess\<close> (lines 89-184), up to the return of the promise. The start is
  the k-th, \<open>k\<close> being the new value of \<open>coldStarts\<close>; \<open>owner\<close> is the call of
  \<open>complete()\<close> that awaits the promise, if one does. \<open>_sendMessage\<close> is an async
  function: when it throws, the warmup promise is a rejected one.
\<close>

definition startPersistentProcess :: "runtime \<Rightarrow> int \<Rightarrow> nat option \<Rightarrow> provider \<Rightarrow> provider" where
  "startPersistentProcess rt now owner w =
     (let k = coldStarts (stats w) + 1;
          w1 = w\<lparr> state := STARTING, stats := (stats w)\<lparr> coldStarts := k \<rparr> \<rparr>;
          w2 = w1\<lparr> process := Some ((spawn rt k)\<lparr> handle := k \<rparr>),
                   io := io w1 @ [Spawn k],
                   initOwner := (initOwner w1)(k := owner) \<rparr>;
          w3 = w2\<lparr> timers := insert (WarmupTimeout k) (timers w2) \<rparr>
      in case sendMessage rt now (WarmupTurn k) ''Hello'' w3 of
           Inr w4 \<Rightarrow> w4
         | Inl e \<Rightarrow> settle (WarmupTurn k) (Rejected e) w3)"

text \<open>
  \<open>initialize()\<close> (lines 65-83), called from outside as call number \<open>j\<close>: resolved at
  once when \<open>READY\<close>, waiting for the \<open>ready\<close> or \<open>error\<close> event when \<open>STARTING\<close>,
  and starting a process in every other state.
\<close>

definition initialize :: "runtime \<Rightarrow> int \<Rightarrow> nat \<Rightarrow> provider \<Rightarrow> provider" where
  "initialize rt now j w =
     (if state w = READY then resolve_wait (Resolved (JBool True)) w j
      else if state w = STARTING
      then w\<lparr> readyListeners := readyListeners w @ [j], errorListeners := errorListeners w @ [j] \<rparr>
      else startPersistentProcess rt now None w)"

text \<open>
  \<open>_persistentComplete\<close> (lines 333-357) for call number \<open>c\<close>. In state \<open>STOPPED\<close>,
  \<open>initialize()\<close> is neither of its first two cases, so it starts a process, and the
  call awaits that promise.
\<close>

definition persistentComplete :: "runtime \<Rightarrow> int \<Rightarrow> nat \<Rightarrow> string \<Rightarrow> provider \<Rightarrow> provider" where
  "persistentComplete rt now c prompt w =
     (if state w = STOPPED
      then startPersistentProcess rt now (Some c)
             (w\<lparr> callers := (callers w)(c \<mapsto> AwaitInit (coldStarts (stats w) + 1) prompt) \<rparr>)
      else complete_wait rt now c prompt w)"

text \<open>\<open>complete(prompt, systemPrompt)\<close> (lines 312-327) in persistent mode.\<close>

definition complete :: "runtime \<Rightarrow> int \<Rightarrow> nat \<Rightarrow> string \<Rightarrow> string option \<Rightarrow> provider \<Rightarrow> provider" where
  "complete rt now c prompt systemPrompt w =
     (let fullPrompt = (case systemPrompt of
                          None \<Rightarrow> prompt
                        | Some sp \<Rightarrow> if sp = [] then prompt
                                     else sp @ [CHR 0x0A, CHR 0x0A] @ ''---'' @ [CHR 0x0A, CHR 0x0A] @ prompt)
      in persistentComplete rt now c fullPrompt w)"

subsection \<open>The listeners on the child process\<close>

text \<open>The \<open>'exit'\<close> listener (lines 128-140).\<close>

definition exit_handler :: "provider \<Rightarrow> provider" where
  "exit_handler w =
     (let w1 = w\<lparr> process := None, state := STOPPED \<rparr> in
      case pendingPromise w1 of
        None \<Rightarrow> w1
      | Some p \<Rightarrow> (pending_reject p ProcessExited w1)\<lparr> pendingPromise := None \<rparr>)"

text \<open>
  The \<open>'error'\<close> listener of the k-th child (lines 143-148). An \<open>EventEmitter\<close> throws
  when \<open>'error'\<close> is emitted and nobody listens; that exception is uncaught.
\<close>

definition error_handler :: "runtime \<Rightarrow> int \<Rightarrow> nat \<Rightarrow> string \<Rightarrow> provider \<Rightarrow> provider" where
  "error_handler rt now k err w =
     (let w1 = w\<lparr> state := ERROR \<rparr> in
      if errorListeners w1 = [] then w1\<lparr> crashed := True \<rparr>
      else settle_init rt now k (Rejected (SpawnError err))
             (foldl (resolve_wait (Resolved (JBool False))) (w1\<lparr> errorListeners := [] \<rparr>)
                (errorListeners w1)))"

subsection \<open>\<open>shutdown\<close>\<close>

text \<open>\<open>shutdown()\<close> (lines 421-459), up to the return of the promise; it is the n-th.\<close>

definition shutdown :: "provider \<Rightarrow> provider" where
  "shutdown w =
     (case process w of
        None \<Rightarrow> w
      | Some pr \<Rightarrow>
          (let n = shutdowns w + 1;
               w1 = w\<lparr> shutdowns := n, timers := insert (ForceKillTimeout n) (timers w) \<rparr>;
               w2 = (if stdin_writable pr
                     then w1\<lparr> process := Some (pr\<lparr> stdin_writable := False \<rparr>),
                              io := io w1 @ [StdinEnd (handle pr)] \<rparr>
                     else w1);
               w3 = w2\<lparr> shutdownWatch := shutdownWatch w2 @ [(handle pr, n)] \<rparr>
           in w3\<lparr> timers := insert (SigtermTimeout n) (timers w3) \<rparr>))"

text \<open>The callback of \<open>forceKillTimeout\<close> (lines 429-437).\<close>

definition force_kill_timeout :: "nat \<Rightarrow> provider \<Rightarrow> provider" where
  "force_kill_timeout n w =
     (let w1 = (case process w of
                  None \<Rightarrow> w
                | Some pr \<Rightarrow> w\<lparr> io := io w @ [Kill (handle pr) SIGKILL] \<rparr>)
      in w1\<lparr> process := None, state := STOPPED, shutdownSettled := (shutdownSettled w1)(n := True) \<rparr>)"

text \<open>The \<open>once('exit', ...)\<close> listener of the n-th shutdown (lines 444-450).\<close>

definition shutdown_exit :: "provider \<Rightarrow> nat \<Rightarrow> provider" where
  "shutdown_exit w n =
     w\<lparr> timers := timers w - {ForceKillTimeout n}, process := None, state := STOPPED,
        shutdownSettled := (shutdownSettled w)(n := True) \<rparr>"

text \<open>The callback of the 1000 ms timer (lines 453-457).\<close>

definition sigterm_timeout :: "provider \<Rightarrow> provider" where
  "sigterm_timeout w =
     (case process w of
        None \<Rightarrow> w
      | Some pr \<Rightarrow> w\<lparr> io := io w @ [Kill (handle pr) SIGTERM] \<rparr>)"

subsection \<open>The event loop\<close>

datatype event =
    CallComplete nat string "string option"
  | CallInitialize nat
  | CallShutdown
  | StdoutData nat string
  | ProcessExit nat
  | ProcessError nat string
  | TimerFires timer

text \<open>
  The reaction to a settled turn: the \<open>.then\<close>/\<open>.catch\<close> of the warmup, or the promise
  of \<open>complete()\<close> taking the outcome of the promise it returned.
\<close>

fun react :: "runtime \<Rightarrow> int \<Rightarrow> provider \<Rightarrow> turn \<times> outcome \<Rightarrow> provider" where
  "react rt now w (WarmupTurn k, Resolved v) = warmup_then rt now k w"
| "react rt now w (WarmupTurn k, Rejected e) = warmup_catch rt now k e w"
| "react rt now w (CallerTurn c, out) = w\<lparr> callers := (callers w)(c \<mapsto> Done out) \<rparr>"

definition drain :: "runtime \<Rightarrow> int \<Rightarrow> provider \<Rightarrow> provider" where
  "drain rt now w = foldl (react rt now) (w\<lparr> microtasks := [] \<rparr>) (microtasks w)"

text \<open>The callback that an event runs. An event that cannot occur changes nothing.\<close>

definition spawned :: "provider \<Rightarrow> nat \<Rightarrow> bool" where
  "spawned w h = (1 \<le> h \<and> h \<le> coldStarts (stats w))"

fun callback :: "runtime \<Rightarrow> int \<Rightarrow> event \<Rightarrow> provider \<Rightarrow> provider" where
  "callback rt now (CallComplete c prompt sp) w =
     (if callers w c = None then complete rt now c prompt sp w else w)"
| "callback rt now (CallInitialize j) w = initialize rt now j w"
| "callback rt now CallShutdown w = shutdown w"
| "callback rt now (StdoutData h data) w =
     (if spawned w h then handleStdout rt now data w else w)"
| "callback rt now (ProcessExit h) w =
     (if spawned w h \<and> h \<notin> exited w
      then (let w1 = exit_handler (w\<lparr> exited := insert h (exited w) \<rparr>);
                mine = filter (\<lambda>(h', n). h' = h) (shutdownWatch w1)
            in foldl shutdown_exit
                 (w1\<lparr> shutdownWatch := filter (\<lambda>(h', n). h' \<noteq> h) (shutdownWatch w1) \<rparr>)
                 (map snd mine))
      else w)"
| "callback rt now (ProcessError h err) w =
     (if spawned w h then error_handler rt now h err w else w)"
| "callback rt now (TimerFires t) w =
     (if t \<notin> timers w then w
      else (case t of
              TurnTimeout tn \<Rightarrow> turn_timeout tn (w\<lparr> timers := timers w - {t} \<rparr>)
            | WarmupTimeout k \<Rightarrow> warmup_timeout rt now k (w\<lparr> timers := timers w - {t} \<rparr>)
            | CheckReady c \<Rightarrow> check_ready rt now c w
            | ForceKillTimeout n \<Rightarrow> force_kill_timeout n (w\<lparr> timers := timers w - {t} \<rparr>)
            | SigtermTimeout n \<Rightarrow> sigterm_timeout (w\<lparr> timers := timers w - {t} \<rparr>)))"

text \<open>One macrotask at time \<open>now\<close>, and a run of them.\<close>

definition step :: "runtime \<Rightarrow> provider \<Rightarrow> int \<times> event \<Rightarrow> provider" where
  "step rt w te =
     (if crashed w then w else drain rt (fst te) (callback rt (fst te) (snd te) w))"

definition run :: "runtime \<Rightarrow> provider \<Rightarrow> (int \<times> event) list \<Rightarrow> provider" where
  "run rt w tes = foldl (step rt) w tes"

subsection \<open>The protocol in the words of the specification\<close>

text \<open>Delivering decoded messages to \<open>_handleMessage\<close>, one after the other.\<close>

definition deliver :: "int \<Rightarrow> json list \<Rightarrow> provider \<Rightarrow> provider" where
  "deliver now msgs w = foldl (\<lambda>w m. fst (handleMessage now m w)) w msgs"

text \<open>
  Section 6 of the specification: in an \<open>assistant\<close> message, \<open>message.content\<close> is a
  list of blocks, and the blocks of type \<open>text\<close> contribute their \<open>text\<close>.
\<close>

definition block_text :: "json \<Rightarrow> string" where
  "block_text b =
     (if get_prop b ''type'' = Some (JStr ''text'')
      then (case get_prop b ''text'' of Some (JStr t) \<Rightarrow> t | _ \<Rightarrow> [])
      else [])"

definition fragment_text :: "json \<Rightarrow> string" where
  "fragment_text m =
     (case opt_prop (get_prop m ''message'') ''content'' of
        Some (JArr bs) \<Rightarrow> concat (map block_text bs)
      | _ \<Rightarrow> [])"

text \<open>A block the protocol allows: not \<open>null\<close>, and the text of a text block is a string.\<close>

definition wf_block :: "json \<Rightarrow> bool" where
  "wf_block b =
     (b \<noteq> JNull \<and>
      (get_prop b ''type'' = Some (JStr ''text'') \<and> truthy (get_prop b ''text'')
         \<longrightarrow> (case get_prop b ''text'' of Some (JStr _) \<Rightarrow> True | _ \<Rightarrow> False)))"

definition is_fragment :: "json \<Rightarrow> bool" where
  "is_fragment m =
     (get_prop m ''type'' = Some (JStr ''assistant'') \<and>
      (case opt_prop (get_prop m ''message'') ''content'' of
         Some (JArr bs) \<Rightarrow> list_all wf_block bs
       | _ \<Rightarrow> False))"

text \<open>A \<open>result\<close> message: its \<open>result\<close> field, when it carries one, is a string.\<close>

definition is_turn_result :: "json \<Rightarrow> bool" where
  "is_turn_result m =
     (get_prop m ''type'' = Some (JStr ''result'') \<and>
      (case get_prop m ''result'' of
         None \<Rightarrow> True
       | Some (JStr _) \<Rightarrow> True
       | Some v \<Rightarrow> \<not> truthy (Some v)))"

definition result_text :: "json \<Rightarrow> string" where
  "result_text m = (case get_prop m ''result'' of Some (JStr r) \<Rightarrow> r | _ \<Rightarrow> [])"

text \<open>
  In an \<open>error\<close> message, \<open>error.message\<close> or \<open>message\<close> gives the error text: each of
  the two, when the message carries it, is a string (or one of \<open>null\<close>, \<open>false\<close>, \<open>0\<close>,
  which stand for no text). The first that gives a text is the decoded error message.
\<close>

definition field_text :: "json option \<Rightarrow> string" where
  "field_text v = (case v of Some (JStr t) \<Rightarrow> t | _ \<Rightarrow> [])"

definition textual :: "json option \<Rightarrow> bool" where
  "textual v = (case v of None \<Rightarrow> True | Some (JStr _) \<Rightarrow> True | Some u \<Rightarrow> \<not> truthy (Some u))"

definition nested_message :: "json \<Rightarrow> json option" where
  "nested_message msg = (case get_prop msg ''error'' of None \<Rightarrow> None | Some e \<Rightarrow> get_prop e ''message'')"

definition is_turn_error :: "json \<Rightarrow> bool" where
  "is_turn_error msg =
     (get_prop msg ''type'' = Some (JStr ''error'')
      \<and> textual (nested_message msg) \<and> textual (get_prop msg ''message''))"

definition decoded_error_message :: "json \<Rightarrow> string" where
  "decoded_error_message msg =
     (if field_text (nested_message msg) \<noteq> [] then field_text (nested_message msg)
      else if field_text (get_prop msg ''message'') \<noteq> [] then field_text (get_prop msg ''message'')
      else ''Unknown error'')"

text \<open>
  Section 4.1. The stream seen as the specification sees it: complete segments, each
  closed by one newline and holding none, followed by a remainder that holds none. A
  segment is white space, then a core that neither starts nor ends with white space (or
  is empty), then white space. The white-space characters are TAB, LF, VT, FF, CR,
  SP and NBSP, given here by their code points.
\<close>

definition is_blank :: "char \<Rightarrow> bool" where
  "is_blank c = (of_char c \<in> {9, 10, 11, 12, 13, 32, 160 :: nat})"

type_synonym segment = "string \<times> string \<times> string"

definition segment_text :: "segment \<Rightarrow> string" where
  "segment_text sg = (case sg of (pre, core, post) \<Rightarrow> pre @ core @ post)"

definition wf_segment :: "segment \<Rightarrow> bool" where
  "wf_segment sg =
     (case sg of (pre, core, post) \<Rightarrow>
        list_all is_blank pre \<and> list_all is_blank post
        \<and> (core \<noteq> [] \<longrightarrow> \<not> is_blank (hd core) \<and> \<not> is_blank (last core))
        \<and> CHR 0x0A \<notin> set (pre @ core @ post))"

definition framed :: "string \<Rightarrow> segment list \<Rightarrow> string \<Rightarrow> bool" where
  "framed s segs rest =
     (list_all wf_segment segs \<and> CHR 0x0A \<notin> set rest
      \<and> s = concat (map (\<lambda>sg. segment_text sg @ [CHR 0x0A]) segs) @ rest)"

text \<open>
  What a complete segment contributes: the parse of its core when the core is not
  empty and parses, and nothing otherwise.
\<close>

definition segment_messages :: "runtime \<Rightarrow> segment \<Rightarrow> json list" where
  "segment_messages rt sg =
     (case sg of (pre, core, post) \<Rightarrow>
        if core = [] then []
        else (case JSON_parse rt core of None \<Rightarrow> [] | Some m \<Rightarrow> [m]))"

subsection \<open>Examples\<close>

text \<open>The messages of the scenarios of section 8, as \<open>JSON.parse\<close> returns them.\<close>

definition result_ok :: json where
  "result_ok = JObj [(''type'', JStr ''result''), (''result'', JStr ''ok'')]"

definition result_empty :: json where
  "result_empty = JObj [(''type'', JStr ''result''), (''result'', JStr [])]"

definition fragment_hi :: json where
  "fragment_hi =
     JObj [(''type'', JStr ''assistant''),
           (''message'', JObj [(''content'',
              JArr [JObj [(''type'', JStr ''text''), (''text'', JStr ''Hi '')]])])]"

definition fragment_there :: json where
  "fragment_there =
     JObj [(''type'', JStr ''assistant''),
           (''message'', JObj [(''content'',
              JArr [JObj [(''type'', JStr ''text''), (''text'', JStr ''there'')]])])]"

definition error_overloaded :: json where
  "error_overloaded =
     JObj [(''type'', JStr ''error''), (''error'', JObj [(''message'', JStr ''overloaded'')])]"

text \<open>
  A runtime for the examples: it parses the lines of these scenarios and nothing else,
  and every spawn succeeds.
\<close>

definition example_lines :: "(string \<times> json) list" where
  \<open>example_lines =
    [(''{"type":"result","result":"ok"}'', result_ok),
     (''{"type":"result","result":""}'', result_empty),
     (''{"type":"assistant","message":{"content":[{"type":"text","text":"Hi "}]}}'', fragment_hi),
     (''{"type":"assistant","message":{"content":[{"type":"text","text":"there"}]}}'', fragment_there),
     (''{"type":"error","error":{"message":"overloaded"}}'', error_overloaded)]\<close>

definition example_runtime :: runtime where
  "example_runtime =
     \<lparr> JSON_parse = map_of example_lines,
       JSON_stringify = (\<lambda>_. ''{}''),
       spawn = (\<lambda>k. \<lparr> handle = k, pid = Some (4000 + k), stdin_writable = True \<rparr>) \<rparr>"

text \<open>
  A provider with an open turn: started at time 0, warmed up at 10, and asked to
  complete \<open>hello\<close> at 20 by call number 1.
\<close>

definition busy_provider :: provider where
  \<open>busy_provider =
     run example_runtime (new_provider 0)
       [(0, CallInitialize 0),
        (10, StdoutData 1 (''{"type":"result","result":"ok"}'' @ [CHR 0x0A])),
        (20, CallComplete 1 ''hello'' None)]\<close>

text \<open>A provider whose process exited during the warmup of the call \<open>complete()\<close> number 0.\<close>

definition failed_provider :: provider where
  "failed_provider =
     run example_runtime (new_provider 0)
       [(0, CallComplete 0 ''hello'' None), (10, ProcessExit 1)]"

subsection \<open>Runs driven by \<open>complete()\<close>\<close>

text \<open>
  The events of a service that only calls \<open>complete()\<close> (and \<open>initialize()\<close> while no
  turn is open): calls, subprocess output, exit and \<open>'error'\<close> events, and the timers
  these arm. Calls of \<open>shutdown()\<close> and of \<open>initialize()\<close> in state \<open>BUSY\<close> are left out.
\<close>

fun admitted :: "provider \<Rightarrow> event \<Rightarrow> bool" where
  "admitted w (CallComplete c prompt sp) = True"
| "admitted w (CallInitialize j) = (state w \<noteq> BUSY)"
| "admitted w CallShutdown = False"
| "admitted w (StdoutData h d) = True"
| "admitted w (ProcessExit h) = True"
| "admitted w (ProcessError h e) = True"
| "admitted w (TimerFires t) =
     (case t of ForceKillTimeout _ \<Rightarrow> False | SigtermTimeout _ \<Rightarrow> False | _ \<Rightarrow> True)"

fun admissible :: "runtime \<Rightarrow> provider \<Rightarrow> (int \<times> event) list \<Rightarrow> bool" where
  "admissible rt w [] = True"
| "admissible rt w (te # tes) = (admitted w (snd te) \<and> admissible rt (step rt w te) tes)"

text \<open>
  The invariant behind the serialisation of turns: an armed turn timer and an
  unsettled promise belong to the pending promise, and every promise was created
  while no other was open.
\<close>

definition owned :: "provider \<Rightarrow> bool" where
  "owned w =
     ((\<forall>t. TurnTimeout t \<in> timers w \<longrightarrow> (\<exists>p. pendingPromise w = Some p \<and> turn p = t))
      \<and> (\<forall>x \<in> set (opened w). settled w (fst x) = None \<longrightarrow>
            (\<exists>p. pendingPromise w = Some p \<and> turn p = fst x))
      \<and> (\<forall>x \<in> set (opened w). snd x = [])
      \<and> shutdownWatch w = []
      \<and> errorListeners w = []
      \<and> \<not> crashed w)"

text \<open>Between the callback and its reactions.\<close>

definition serial :: "provider \<Rightarrow> bool" where
  "serial w =
     (owned w
      \<and> (pendingPromise w = None) = (state w \<noteq> BUSY)
      \<and> (pendingPromise w \<noteq> None \<longrightarrow> microtasks w = [])
      \<and> length (microtasks w) \<le> 1
      \<and> (state w = STARTING \<longrightarrow> (\<exists>k e. microtasks w = [(WarmupTurn k, Rejected e)])))"

text \<open>At the end of a macrotask.\<close>

definition settled_down :: "provider \<Rightarrow> bool" where
  "settled_down w = (serial w \<and> microtasks w = [])"

text \<open>
  After the uncaught exception of an \<open>'error'\<close> event nothing runs any more; what was
  true of the promises stays true.
\<close>

definition halted :: "provider \<Rightarrow> bool" where
  "halted w =
     (crashed w \<and> state w = ERROR
      \<and> (\<forall>x \<in> set (opened w). settled w (fst x) = None \<longrightarrow>
            (\<exists>p. pendingPromise w = Some p \<and> turn p = fst x))
      \<and> (\<forall>x \<in> set (opened w). snd x = []))"

text \<open>A run with two concurrent callers: call 2 arrives while the turn of call 1 is open.\<close>

definition two_callers :: "(int \<times> event) list" where
  \<open>two_callers =
     [(0, CallInitialize 0),
      (10, StdoutData 1 (''{"type":"result","result":"ok"}'' @ [CHR 0x0A])),
      (20, CallComplete 1 ''hello'' None),
      (30, CallComplete 2 ''next'' None),
      (130, TimerFires (CheckReady 2)),
      (200, StdoutData 1 (''{"type":"result","result":"ok"}'' @ [CHR 0x0A])),
      (230, TimerFires (CheckReady 2))]\<close>

text \<open>A provider in its warmup: the call \<open>complete()\<close> number 0 has just started it.\<close>

definition warming_provider :: provider where
  "warming_provider =
     run example_runtime (new_provider 0) [(0, CallComplete 0 ''hello'' None)]"

text \<open>An initialisation whose subprocess stays silent for the 5000 ms of the warmup timer.\<close>

definition silent_warmup :: "(int \<times> event) list" where
  "silent_warmup = [(0, CallInitialize 0), (5000, TimerFires (WarmupTimeout 1))]"

text \<open>A shutdown of a ready provider whose process exits before the 1000 ms timer.\<close>

definition shutdown_then_exit :: "(int \<times> event) list" where
  \<open>shutdown_then_exit =
     [(0, CallInitialize 0),
      (10, StdoutData 1 (''{"type":"result","result":"ok"}'' @ [CHR 0x0A])),
      (20, CallShutdown),
      (200, ProcessExit 1)]\<close>

text \<open>
  A chunk with white space around a line (TAB, VT, FF, CR, SP and NBSP), a complete
  line that is not JSON, a complete line of white space only, and a partial line; and
  its framing.
\<close>

definition padded_chunk :: string where
  \<open>padded_chunk =
     [CHR 0x20, CHR 0x09, CHR 0x0B] @ ''{"type":"result","result":"ok"}'' @ [CHR 0x0C, CHR 0x0D, CHR 0xA0]
     @ [CHR 0x0A] @ ''not json'' @ [CHR 0x0A] @ [CHR 0x20, CHR 0x20] @ [CHR 0x0A]
     @ ''{"type":"result"''\<close>

definition padded_segments :: "segment list" where
  \<open>padded_segments =
     [([CHR 0x20, CHR 0x09, CHR 0x0B], ''{"type":"result","result":"ok"}'', [CHR 0x0C, CHR 0x0D, CHR 0xA0]),
      ([], ''not json'', []),
      ([CHR 0x20, CHR 0x20], [], [])]\<close>

text \<open>
  Two runs in which a turn is opened over an open one: \<open>initialize()\<close> called while the
  turn of call 1 is open, and a shutdown whose process does not exit before the force
  kill, followed by further calls.
\<close>

definition restart_while_busy :: "(int \<times> event) list" where
  \<open>restart_while_busy =
     [(0, CallInitialize 0),
      (10, StdoutData 1 (''{"type":"result","result":"ok"}'' @ [CHR 0x0A])),
      (20, CallComplete 1 ''hello'' None),
      (30, CallInitialize 1),
      (40, CallComplete 2 ''next'' None),
      (50, StdoutData 2 (''{"type":"result","result":"ok"}'' @ [CHR 0x0A])),
      (140, TimerFires (CheckReady 2))]\<close>

definition kill_then_complete :: "(int \<times> event) list" where
  \<open>kill_then_complete =
     [(0, CallInitialize 0),
      (10, StdoutData 1 (''{"type":"result","result":"ok"}'' @ [CHR 0x0A])),
      (20, CallComplete 1 ''hello'' None),
      (30, CallShutdown),
      (1030, TimerFires (SigtermTimeout 1)),
      (5030, TimerFires (ForceKillTimeout 1)),
      (5040, CallComplete 2 ''next'' None),
      (5050, CallComplete 3 ''last'' None),
      (5060, StdoutData 2 (''{"type":"result","result":"ok"}'' @ [CHR 0x0A])),
      (5070, StdoutData 2 (''{"type":"result","result":"ok"}'' @ [CHR 0x0A])),
      (5150, TimerFires (CheckReady 3))]\<close>

section \<open>Frame lemmas: what leaves the statistics alone\<close>

lemma stats_settle [simp]: "stats (settle t out w) = stats w"
  by (simp add: settle_def)

lemma stats_resolve_wait [simp]: "stats (resolve_wait out w j) = stats w"
  by (simp add: resolve_wait_def)

lemma stats_foldl_resolve_wait [simp]: "stats (foldl (resolve_wait out) w js) = stats w"
  by (induction js arbitrary: w) simp_all

lemma stats_emit_ready [simp]: "stats (emit_ready w) = stats w"
  by (simp add: emit_ready_def)

lemma stats_sendMessage: "sendMessage rt now t content w = Inr w' \<Longrightarrow> stats w' = stats w"
  by (auto simp: sendMessage_def split: option.splits if_splits)

lemma stats_complete_send [simp]: "stats (complete_send rt now c prompt w) = stats w"
  by (auto simp: complete_send_def dest: stats_sendMessage split: sum.splits)

lemma stats_complete_wait [simp]: "stats (complete_wait rt now c prompt w) = stats w"
  by (simp add: complete_wait_def)

lemma stats_settle_init [simp]: "stats (settle_init rt now k out w) = stats w"
  by (simp add: settle_init_def Let_def split: option.splits caller.splits outcome.splits)

lemma stats_warmup_then [simp]: "stats (warmup_then rt now k w) = stats w"
  by (simp add: warmup_then_def)

lemma stats_warmup_catch [simp]: "stats (warmup_catch rt now k e w) = stats w"
  by (simp add: warmup_catch_def Let_def)

lemma stats_warmup_timeout [simp]: "stats (warmup_timeout rt now k w) = stats w"
  by (simp add: warmup_timeout_def)

lemma stats_react [simp]: "stats (react rt now w x) = stats w"
  by (cases "(rt, now, w, x)" rule: react.cases) simp_all

lemma stats_foldl_react [simp]: "stats (foldl (react rt now) w xs) = stats w"
  by (induction xs arbitrary: w) simp_all

lemma stats_drain [simp]: "stats (drain rt now w) = stats w"
  by (simp add: drain_def)

lemma stats_turn_timeout [simp]: "stats (turn_timeout t w) = stats w"
  by (simp add: turn_timeout_def)

lemma stats_check_ready [simp]: "stats (check_ready rt now c w) = stats w"
  by (simp add: check_ready_def split: option.splits caller.splits)

lemma stats_exit_handler [simp]: "stats (exit_handler w) = stats w"
  by (simp add: exit_handler_def Let_def pending_reject_def split: option.splits)

lemma stats_shutdown_exit [simp]: "stats (shutdown_exit w n) = stats w"
  by (simp add: shutdown_exit_def)

lemma stats_foldl_shutdown_exit [simp]: "stats (foldl shutdown_exit w ns) = stats w"
  by (induction ns arbitrary: w) simp_all

lemma stats_shutdown [simp]: "stats (shutdown w) = stats w"
  by (simp add: shutdown_def Let_def split: option.splits)

lemma stats_force_kill [simp]: "stats (force_kill_timeout n w) = stats w"
  by (simp add: force_kill_timeout_def Let_def split: option.splits)

lemma stats_sigterm [simp]: "stats (sigterm_timeout w) = stats w"
  by (simp add: sigterm_timeout_def split: option.splits)

lemma stats_error_handler [simp]: "stats (error_handler rt now k err w) = stats w"
  by (simp add: error_handler_def Let_def)

lemma stats_start:
  "stats (startPersistentProcess rt now owner w) = (stats w)\<lparr> coldStarts := coldStarts (stats w) + 1 \<rparr>"
  by (auto simp: startPersistentProcess_def Let_def dest: stats_sendMessage split: sum.splits)

lemma errors_callback:
  "(\<forall>h d. e \<noteq> StdoutData h d) \<Longrightarrow> errors (stats (callback rt now e w)) = errors (stats w)"
  by (cases e)
     (auto simp: complete_def persistentComplete_def initialize_def stats_start Let_def
           split: timer.splits)

section \<open>Turn timeout\<close>

text \<open>
  C10. A turn abandoned by its timeout leaves every counter of the statistics as it
  was: the whole macrotask of the timer (the callback and the reactions to the
  rejection) returns the same \<open>stats\<close>. The error counter moves only in a macrotask that
  delivers subprocess output (where a turn-error message is handled): no other event
  changes it.
\<close>

theorem timeout_leaves_statistics:
  "stats (step rt w (now, TimerFires (TurnTimeout t))) = stats w \<and>
   ((\<forall>h d. e \<noteq> StdoutData h d) \<longrightarrow>
      errors (stats (step rt w (now, e))) = errors (stats w))"
  by (simp add: step_def errors_callback)

section \<open>Evaluating the model\<close>

lemmas model_defs =
  run_def step_def drain_def new_provider_def initialize_def startPersistentProcess_def
  sendMessage_def open_turns_def settle_def encode_user_def spawned_def Let_def
  complete_def persistentComplete_def complete_wait_def complete_send_def check_ready_def
  settle_init_def resolve_wait_def emit_ready_def warmup_timeout_def warmup_then_def
  warmup_catch_def has_pid_def exit_handler_def error_handler_def shutdown_def
  force_kill_timeout_def shutdown_exit_def sigterm_timeout_def turn_timeout_def
  pending_resolve_def pending_reject_def handleStdout_def handle_line_def handleMessage_def
  handle_result_def handle_error_def handle_assistant_def set_response_def js_or_def
  opt_prop_def get_prop_def trim_def is_space_def round_div_def

lemmas example_defs =
  example_runtime_def example_lines_def result_ok_def result_empty_def fragment_hi_def
  fragment_there_def error_overloaded_def

lemma busy_provider_pending:
  "pendingPromise busy_provider = Some \<lparr> turn = CallerTurn 1, response = [], startTime = 20 \<rparr>"
  by (simp add: busy_provider_def model_defs example_defs)

lemma busy_provider_facts:
  "TurnTimeout (CallerTurn 1) \<in> timers busy_provider \<and> \<not> crashed busy_provider
   \<and> microtasks busy_provider = [] \<and> state busy_provider = BUSY
   \<and> timeout busy_provider = 120000 \<and> callers busy_provider 1 = Some AwaitTurn
   \<and> callers busy_provider 2 = None \<and> exited busy_provider = {}
   \<and> coldStarts (stats busy_provider) = 1"
  by (simp add: busy_provider_def model_defs example_defs)

lemma failed_provider_facts:
  "state failed_provider = ERROR \<and> process failed_provider = None
   \<and> callers failed_provider 1 = None \<and> \<not> crashed failed_provider"
  by (simp add: failed_provider_def model_defs example_defs)

section \<open>The turn correlator\<close>

lemma append_blocks_wf:
  "list_all wf_block bs \<Longrightarrow> append_blocks bs r = (r @ concat (map block_text bs), False)"
proof (induction bs arbitrary: r)
  case Nil
  then show ?case by simp
next
  case (Cons b bs)
  then have wf: "wf_block b" and rest: "list_all wf_block bs" by simp_all
  show ?case
  proof (cases "get_prop b ''type'' = Some (JStr ''text'') \<and> truthy (get_prop b ''text'')")
    case True
    with wf obtain t where t: "get_prop b ''text'' = Some (JStr t)"
      by (auto simp: wf_block_def split: option.splits json.splits)
    from wf have "b \<noteq> JNull" by (simp add: wf_block_def)
    with True t Cons.IH[OF rest] show ?thesis by (simp add: block_text_def)
  next
    case False
    from wf have nn: "b \<noteq> JNull" by (simp add: wf_block_def)
    from False have "block_text b = []"
      by (auto simp: block_text_def split: option.splits json.splits)
    with False nn Cons.IH[OF rest] show ?thesis by auto
  qed
qed

lemma set_response_same: "pendingPromise w = Some p \<Longrightarrow> set_response (response p) w = w"
  by (simp add: set_response_def)

lemma set_response_twice [simp]: "set_response r2 (set_response r1 w) = set_response r2 w"
  by (cases "pendingPromise w") (simp_all add: set_response_def)

lemma pending_set_response:
  "pendingPromise w = Some p \<Longrightarrow> pendingPromise (set_response r w) = Some (p\<lparr> response := r \<rparr>)"
  by (simp add: set_response_def)

lemma handle_fragment:
  assumes "pendingPromise w = Some p" and "is_fragment m"
  shows "handleMessage now m w = (set_response (response p @ fragment_text m) w, False)"
proof -
  from assms(2) obtain bs where c: "opt_prop (get_prop m ''message'') ''content'' = Some (JArr bs)"
    and wf: "list_all wf_block bs" and ty: "get_prop m ''type'' = Some (JStr ''assistant'')"
    by (auto simp: is_fragment_def split: option.splits json.splits)
  from ty have "m \<noteq> JNull" by (auto simp: get_prop_def)
  with assms(1) ty c wf show ?thesis
    by (simp add: handleMessage_def handle_assistant_def fragment_text_def append_blocks_wf)
qed

lemma deliver_Cons: "deliver now (m # ms) w = deliver now ms (fst (handleMessage now m w))"
  by (simp add: deliver_def)

lemma deliver_append: "deliver now (ms @ ns) w = deliver now ns (deliver now ms w)"
  by (simp add: deliver_def)

lemma deliver_fragments:
  "pendingPromise w = Some p \<Longrightarrow> list_all is_fragment ms \<Longrightarrow>
   deliver now ms w = set_response (response p @ concat (map fragment_text ms)) w"
proof (induction ms arbitrary: w p)
  case Nil
  then show ?case by (simp add: deliver_def set_response_same)
next
  case (Cons m ms)
  then have m: "is_fragment m" and ms: "list_all is_fragment ms" by simp_all
  let ?w1 = "set_response (response p @ fragment_text m) w"
  have p1: "pendingPromise ?w1 = Some (p\<lparr> response := response p @ fragment_text m \<rparr>)"
    using Cons.prems(1) by (rule pending_set_response)
  have "deliver now (m # ms) w = deliver now ms ?w1"
    by (simp add: deliver_Cons handle_fragment[OF Cons.prems(1) m])
  also have "\<dots> = set_response ((response p @ fragment_text m) @ concat (map fragment_text ms)) ?w1"
    using Cons.IH[OF p1 ms] by simp
  finally show ?case by simp
qed

lemma result_value:
  assumes "is_turn_result res"
  shows "(case js_or (js_or (Some (JStr acc)) (get_prop res ''result'')) (Some (JStr []))
          of Some v \<Rightarrow> v | None \<Rightarrow> JStr []) = JStr (if acc = [] then result_text res else acc)"
  using assms
  by (auto simp: is_turn_result_def js_or_def result_text_def split: option.splits json.splits)

text \<open>
  C2. While a turn is open, delivering any sequence of well-formed assistant fragments
  and then one turn-result resolves the turn's promise with the accumulator followed
  by the fragments' text blocks in arrival order (the accumulator is empty when the
  turn is opened), or with the result's own text when that concatenation is empty;
  the state is then \<open>READY\<close> and no promise is pending.
\<close>

theorem fragments_then_result:
  assumes "pendingPromise w = Some p" and "list_all is_fragment frags" and "is_turn_result res"
  shows "let acc = response p @ concat (map fragment_text frags);
             w' = deliver now (frags @ [res]) w
         in settled w' (turn p) = Some (Resolved (JStr (if acc = [] then result_text res else acc)))
            \<and> state w' = READY \<and> pendingPromise w' = None"
proof -
  let ?acc = "response p @ concat (map fragment_text frags)"
  let ?w1 = "set_response ?acc w"
  have d: "deliver now frags w = ?w1" using assms(1,2) by (rule deliver_fragments)
  have p1: "pendingPromise ?w1 = Some (p\<lparr> response := ?acc \<rparr>)"
    using assms(1) by (rule pending_set_response)
  from assms(3) have ty: "get_prop res ''type'' = Some (JStr ''result'')" and nn: "res \<noteq> JNull"
    by (auto simp: is_turn_result_def get_prop_def)
  have h: "fst (handleMessage now res ?w1) = handle_result now (p\<lparr> response := ?acc \<rparr>) res ?w1"
    using p1 ty nn by (simp add: handleMessage_def)
  have "deliver now (frags @ [res]) w = fst (handleMessage now res (deliver now frags w))"
    by (simp add: deliver_def)
  then have "deliver now (frags @ [res]) w = handle_result now (p\<lparr> response := ?acc \<rparr>) res ?w1"
    by (simp only: d h)
  moreover have "settled (handle_result now (p\<lparr> response := ?acc \<rparr>) res ?w1) (turn p)
        = Some (Resolved (JStr (if ?acc = [] then result_text res else ?acc)))"
    using result_value[OF assms(3), of ?acc]
    by (simp add: handle_result_def Let_def pending_resolve_def settle_def)
  moreover have "state (handle_result now (p\<lparr> response := ?acc \<rparr>) res ?w1) = READY"
    by (simp add: handle_result_def Let_def)
  moreover have "pendingPromise (handle_result now (p\<lparr> response := ?acc \<rparr>) res ?w1) = None"
    by (simp add: handle_result_def Let_def)
  ultimately show ?thesis by (simp add: Let_def)
qed

theorem fragments_then_result_witness:
  "pendingPromise busy_provider = Some \<lparr> turn = CallerTurn 1, response = [], startTime = 20 \<rparr>
   \<and> list_all is_fragment [fragment_hi, fragment_there] \<and> is_turn_result result_empty
   \<and> settled (deliver 30 [fragment_hi, fragment_there, result_empty] busy_provider) (CallerTurn 1)
       = Some (Resolved (JStr ''Hi there''))
   \<and> state (deliver 30 [fragment_hi, fragment_there, result_empty] busy_provider) = READY"
proof -
  have f: "list_all is_fragment [fragment_hi, fragment_there]"
    by (simp add: is_fragment_def wf_block_def opt_prop_def get_prop_def example_defs)
  have r: "is_turn_result result_empty"
    by (simp add: is_turn_result_def get_prop_def example_defs)
  have t: "fragment_text fragment_hi = ''Hi '' \<and> fragment_text fragment_there = ''there''"
    by (simp add: fragment_text_def block_text_def opt_prop_def get_prop_def example_defs)
  show ?thesis
    using fragments_then_result[OF busy_provider_pending f r, of 30] f r t busy_provider_pending
    by (simp add: Let_def)
qed

lemma opt_prop_nested: "opt_prop (get_prop msg ''error'') ''message'' = nested_message msg"
  by (auto simp: opt_prop_def nested_message_def get_prop_def split: option.splits json.splits)

lemma textual_cases:
  assumes "textual v"
  shows "(truthy v \<and> (\<exists>t. v = Some (JStr t) \<and> t \<noteq> [] \<and> field_text v = t))
         \<or> (\<not> truthy v \<and> field_text v = [])"
  using assms by (auto simp: textual_def field_text_def split: option.splits json.splits)

lemma error_message_value:
  assumes "is_turn_error msg"
  shows "(case js_or (js_or (opt_prop (get_prop msg ''error'') ''message'') (get_prop msg ''message''))
                     (Some (JStr ''Unknown error''))
          of Some v \<Rightarrow> v | None \<Rightarrow> JStr ''Unknown error'')
         = JStr (decoded_error_message msg)"
proof -
  from assms have a: "textual (nested_message msg)" and b: "textual (get_prop msg ''message'')"
    by (simp_all add: is_turn_error_def)
  from textual_cases[OF a] show ?thesis
  proof (elim disjE conjE exE)
    fix t assume "nested_message msg = Some (JStr t)" "t \<noteq> []"
    then show ?thesis
      by (simp add: opt_prop_nested js_or_def decoded_error_message_def field_text_def)
  next
    assume n: "\<not> truthy (nested_message msg)" "field_text (nested_message msg) = []"
    from textual_cases[OF b] show ?thesis
    proof (elim disjE conjE exE)
      fix t assume "get_prop msg ''message'' = Some (JStr t)" "t \<noteq> []"
      with n show ?thesis
        by (simp add: opt_prop_nested js_or_def decoded_error_message_def field_text_def)
    next
      assume "\<not> truthy (get_prop msg ''message'')" "field_text (get_prop msg ''message'') = []"
      with n show ?thesis
        by (simp add: opt_prop_nested js_or_def decoded_error_message_def)
    qed
  qed
qed

text \<open>
  C5. A turn-error message of the protocol's shape that arrives while a turn is open
  changes exactly this: the promise of that turn (and of no other) is rejected with
  the decoded error message and its reaction is queued, its timer is cleared, the
  error counter grows by one, no promise is pending any more, and the state is
  \<open>READY\<close>.
\<close>

theorem turn_error_rejects_caller:
  assumes "pendingPromise w = Some p" and "is_turn_error msg"
  shows "handleMessage now msg w =
           (w\<lparr> stats := (stats w)\<lparr> errors := errors (stats w) + 1 \<rparr>,
               timers := timers w - {TurnTimeout (turn p)},
               settled := (settled w)(turn p \<mapsto> Rejected (ErrorMessage (decoded_error_message msg))),
               microtasks := microtasks w @ [(turn p, Rejected (ErrorMessage (decoded_error_message msg)))],
               pendingPromise := None,
               state := READY \<rparr>, False)"
proof -
  from assms(2) have ty: "get_prop msg ''type'' = Some (JStr ''error'')"
    by (simp add: is_turn_error_def)
  then have ne: "msg \<noteq> JNull" by (auto simp: get_prop_def)
  have "handleMessage now msg w = handle_error p msg w"
    using assms(1) ty ne by (simp add: handleMessage_def)
  also have "\<dots> =
      (w\<lparr> stats := (stats w)\<lparr> errors := errors (stats w) + 1 \<rparr>,
          timers := timers w - {TurnTimeout (turn p)},
          settled := (settled w)(turn p \<mapsto> Rejected (ErrorMessage (decoded_error_message msg))),
          microtasks := microtasks w @ [(turn p, Rejected (ErrorMessage (decoded_error_message msg)))],
          pendingPromise := None,
          state := READY \<rparr>, False)"
    unfolding handle_error_def Let_def error_message_value[OF assms(2)]
    by (simp add: pending_reject_def settle_def)
  finally show ?thesis .
qed

theorem turn_error_rejects_caller_witness:
  "pendingPromise busy_provider = Some \<lparr> turn = CallerTurn 1, response = [], startTime = 20 \<rparr>
   \<and> is_turn_error error_overloaded
   \<and> settled (fst (handleMessage 30 error_overloaded busy_provider)) (CallerTurn 1)
       = Some (Rejected (ErrorMessage ''overloaded''))
   \<and> state (fst (handleMessage 30 error_overloaded busy_provider)) = READY
   \<and> pendingPromise (fst (handleMessage 30 error_overloaded busy_provider)) = None
   \<and> errors (stats (fst (handleMessage 30 error_overloaded busy_provider)))
       = errors (stats busy_provider) + 1"
proof -
  have ty: "is_turn_error error_overloaded"
    by (simp add: is_turn_error_def textual_def nested_message_def get_prop_def example_defs)
  have tx: "decoded_error_message error_overloaded = ''overloaded''"
    by (simp add: decoded_error_message_def field_text_def nested_message_def get_prop_def
          example_defs)
  show ?thesis
    using turn_error_rejects_caller[OF busy_provider_pending ty, of 30] ty tx busy_provider_pending
    by simp
qed

text \<open>
  Outside the protocol's shape: an error text that is an object with an own
  \<open>toString\<close> property makes \<open>new Error(errorMsg)\<close> throw after the counter was
  incremented; the turn stays pending.
\<close>

lemma turn_error_unprintable:
  assumes "pendingPromise w = Some p"
  shows "handleMessage now
           (JObj [(''type'', JStr ''error''),
                  (''error'', JObj [(''message'', JObj [(''toString'', JNum True ''1'')])])]) w
         = (w\<lparr> stats := (stats w)\<lparr> errors := errors (stats w) + 1 \<rparr> \<rparr>, True)"
  using assms
  by (simp add: handleMessage_def handle_error_def get_prop_def opt_prop_def js_or_def Let_def)

section \<open>The stream buffer\<close>

lemma split_nl_nonempty [simp]: "split_nl s \<noteq> []"
  by (induction s) (auto split: list.splits)

lemma split_nl_rebuild:
  "concat (map (\<lambda>l. l @ [CHR 0x0A]) (butlast (split_nl s))) @ last (split_nl s) = s"
  by (induction s) (auto split: list.splits)

lemma split_nl_no_newline: "l \<in> set (split_nl s) \<Longrightarrow> CHR 0x0A \<notin> set l"
  by (induction s arbitrary: l) (auto split: list.splits if_splits)

lemma split_nl_rest: "CHR 0x0A \<notin> set r \<Longrightarrow> split_nl r = [r]"
  by (induction r) auto

lemma split_nl_line: "CHR 0x0A \<notin> set l \<Longrightarrow> split_nl (l @ CHR 0x0A # s) = l # split_nl s"
  by (induction l) auto

lemma is_space_blank: "is_space c = is_blank c"
proof -
  have eq: "\<And>d. (c = d) = (of_char c = (of_char d :: nat))"
    by (simp add: of_char_eq_iff)
  show ?thesis
    unfolding is_space_def is_blank_def insert_iff empty_iff eq
    by simp
qed

lemma segment_no_newline:
  "wf_segment sg \<Longrightarrow> CHR 0x0A \<notin> set (segment_text sg)"
  by (cases sg) (simp add: wf_segment_def segment_text_def)

text \<open>Splitting a framed stream gives back its segments and its remainder.\<close>

lemma split_nl_framed:
  assumes "list_all wf_segment segs" and "CHR 0x0A \<notin> set rest"
  shows "split_nl (concat (map (\<lambda>sg. segment_text sg @ [CHR 0x0A]) segs) @ rest)
         = map segment_text segs @ [rest]"
  using assms(1)
proof (induction segs)
  case Nil
  show ?case using assms(2) by (simp add: split_nl_rest)
next
  case (Cons sg segs)
  then have n: "CHR 0x0A \<notin> set (segment_text sg)" and r: "list_all wf_segment segs"
    by (simp_all add: segment_no_newline)
  show ?case using split_nl_line[OF n] Cons.IH[OF r] by simp
qed

text \<open>Trimming a segment leaves its core.\<close>

lemma dropWhile_blank_core:
  assumes "list_all is_space pre" and "core \<noteq> []" and "\<not> is_space (hd core)"
  shows "dropWhile is_space (pre @ core @ post) = core @ post"
proof -
  have "dropWhile is_space (pre @ core @ post) = dropWhile is_space (core @ post)"
    using assms(1) by (induction pre) simp_all
  also have "\<dots> = core @ post"
    using assms(2,3) by (cases core) simp_all
  finally show ?thesis .
qed

lemma trim_segment:
  assumes "wf_segment (pre, core, post)"
  shows "trim (pre @ core @ post) = core"
proof (cases "core = []")
  case True
  from assms have "list_all is_space (pre @ post)"
    by (auto simp: wf_segment_def is_space_blank list_all_iff)
  then have dw: "dropWhile is_space (pre @ post) = []"
    unfolding dropWhile_eq_Nil_conv list_all_iff .
  have "trim (pre @ post) = []"
    by (simp only: trim_def dw rev.simps dropWhile.simps)
  with True show ?thesis by simp
next
  case False
  from assms False have pre: "list_all is_space pre" and post: "list_all is_space (rev post)"
    and h: "\<not> is_space (hd core)" and l: "\<not> is_space (last core)"
    by (simp_all add: wf_segment_def is_space_blank list_all_iff)
  have 1: "dropWhile is_space (pre @ core @ post) = core @ post"
    using pre False h by (rule dropWhile_blank_core)
  have rc: "rev core \<noteq> []" "\<not> is_space (hd (rev core))"
    using False l by (simp_all add: hd_rev)
  have "dropWhile is_space (rev (core @ post)) = dropWhile is_space (rev post @ rev core @ [])"
    by simp
  also have "\<dots> = rev core @ []"
    using post rc by (rule dropWhile_blank_core)
  finally show ?thesis by (simp add: trim_def 1)
qed

lemma buffer_handleMessage [simp]: "stdoutBuffer (fst (handleMessage now m w)) = stdoutBuffer w"
  by (auto simp: handleMessage_def handle_assistant_def handle_result_def handle_error_def
        set_response_def pending_resolve_def pending_reject_def settle_def Let_def
      split: option.splits json.splits prod.splits)

lemma buffer_deliver [simp]: "stdoutBuffer (deliver now ms w) = stdoutBuffer w"
  by (induction ms arbitrary: w) (simp_all add: deliver_def)

lemma handle_line_segment:
  assumes "wf_segment sg"
  shows "handle_line rt now w (segment_text sg) = deliver now (segment_messages rt sg) w"
proof -
  obtain pre core post where sg: "sg = (pre, core, post)" by (cases sg)
  with assms have "trim (segment_text sg) = core"
    by (simp add: segment_text_def trim_segment)
  then show ?thesis
    by (simp add: handle_line_def segment_messages_def sg deliver_def Let_def split: option.splits)
qed

lemma foldl_handle_line_segments:
  "list_all wf_segment segs \<Longrightarrow>
   foldl (handle_line rt now) w (map segment_text segs)
     = deliver now (concat (map (segment_messages rt) segs)) w"
proof (induction segs arbitrary: w)
  case Nil
  then show ?case by (simp add: deliver_def)
next
  case (Cons sg segs)
  then have a: "wf_segment sg" and b: "list_all wf_segment segs" by simp_all
  show ?case
    using Cons.IH[OF b] by (simp add: handle_line_segment[OF a] deliver_append)
qed

text \<open>Every string is a framed stream.\<close>

lemma trim_splits:
  "\<exists>pre post. l = pre @ trim l @ post \<and> list_all is_space pre \<and> list_all is_space post
     \<and> (trim l \<noteq> [] \<longrightarrow> \<not> is_space (hd (trim l)) \<and> \<not> is_space (last (trim l)))"
proof -
  let ?d = "dropWhile is_space l"
  let ?e = "dropWhile is_space (rev ?d)"
  have t: "trim l = rev ?e" by (simp add: trim_def)
  have d: "?d = rev ?e @ rev (takeWhile is_space (rev ?d))"
    by (metis rev_append rev_rev_ident takeWhile_dropWhile_id)
  have l: "l = takeWhile is_space l @ trim l @ rev (takeWhile is_space (rev ?d))"
    using d t takeWhile_dropWhile_id[of is_space l] by metis
  have p: "list_all is_space (takeWhile is_space l)"
    by (auto simp: list_all_iff dest: set_takeWhileD)
  have q: "list_all is_space (rev (takeWhile is_space (rev ?d)))"
    by (auto simp: list_all_iff dest: set_takeWhileD)
  have e: "trim l \<noteq> [] \<longrightarrow> \<not> is_space (hd (trim l)) \<and> \<not> is_space (last (trim l))"
  proof
    assume ne: "trim l \<noteq> []"
    then have ene: "?e \<noteq> []" using t by simp
    then have "\<not> is_space (hd ?e)" by (rule hd_dropWhile)
    then have la: "\<not> is_space (last (trim l))" using t ene by (simp add: last_rev)
    from ene d have dne: "?d \<noteq> []"
      by (metis Nil_is_append_conv rev_is_Nil_conv)
    then have "\<not> is_space (hd ?d)" by (rule hd_dropWhile)
    moreover have "hd ?d = hd (trim l)" using d t ne by (metis hd_append2)
    ultimately show "\<not> is_space (hd (trim l)) \<and> \<not> is_space (last (trim l))" using la by simp
  qed
  from l p q e show ?thesis by blast
qed

lemma line_is_segment:
  assumes "CHR 0x0A \<notin> set l"
  shows "\<exists>sg. wf_segment sg \<and> segment_text sg = l"
proof -
  from trim_splits[of l] obtain pre post where
    "l = pre @ trim l @ post" "list_all is_space pre" "list_all is_space post"
    "trim l \<noteq> [] \<longrightarrow> \<not> is_space (hd (trim l)) \<and> \<not> is_space (last (trim l))"
    by blast
  note f = this
  have n: "CHR 0x0A \<notin> set (pre @ trim l @ post)" using assms f(1) by simp
  have "wf_segment (pre, trim l, post)"
    unfolding wf_segment_def using f(2,3,4) n by (simp add: is_space_blank list_all_iff)
  moreover have "segment_text (pre, trim l, post) = l"
    using f(1) by (simp add: segment_text_def)
  ultimately show ?thesis by blast
qed

lemma lines_are_segments:
  "\<forall>l \<in> set ls. CHR 0x0A \<notin> set l \<Longrightarrow>
   \<exists>segs. list_all wf_segment segs \<and> map segment_text segs = ls"
proof (induction ls)
  case Nil
  then show ?case by simp
next
  case (Cons l ls)
  then obtain segs where s: "list_all wf_segment segs" "map segment_text segs = ls" by auto
  from Cons.prems line_is_segment[of l] obtain sg where "wf_segment sg" "segment_text sg = l"
    by auto
  with s show ?case by (intro exI[of _ "sg # segs"]) simp
qed

lemma framing_exists: "\<exists>segs rest. framed s segs rest"
proof -
  have "\<forall>l \<in> set (butlast (split_nl s)). CHR 0x0A \<notin> set l"
    by (auto dest: in_set_butlastD split_nl_no_newline)
  then obtain segs where segs: "list_all wf_segment segs" "map segment_text segs = butlast (split_nl s)"
    using lines_are_segments by blast
  have r: "CHR 0x0A \<notin> set (last (split_nl s))"
    using split_nl_no_newline[of "last (split_nl s)" s] by simp
  have "concat (map (\<lambda>sg. segment_text sg @ [CHR 0x0A]) segs)
          = concat (map (\<lambda>l. l @ [CHR 0x0A]) (map segment_text segs))"
    by (simp add: comp_def)
  then have "s = concat (map (\<lambda>sg. segment_text sg @ [CHR 0x0A]) segs) @ last (split_nl s)"
    using split_nl_rebuild[of s] segs(2) by simp
  with segs(1) r have "framed s segs (last (split_nl s))" by (simp add: framed_def)
  then show ?thesis by blast
qed

text \<open>
  C3. Whatever the buffer holds and whatever is appended, the two together are a framed
  stream (complete newline-terminated segments, then a remainder without newline), and
  for every such framing \<open>_handleStdout\<close> does exactly this: it hands to
  \<open>_handleMessage\<close>, in order, the parse of each segment's core (the segment without
  its leading and trailing white space) when that core is not empty and parses, it
  hands over nothing for an empty or unparsable segment, no error escapes, and the
  remainder is the new buffer.
\<close>

theorem stream_buffer_framing:
  "(\<exists>segs rest. framed (stdoutBuffer w @ data) segs rest)
   \<and> (\<forall>segs rest. framed (stdoutBuffer w @ data) segs rest \<longrightarrow>
         handleStdout rt now data w
           = deliver now (concat (map (segment_messages rt) segs)) (w\<lparr> stdoutBuffer := rest \<rparr>)
         \<and> stdoutBuffer (handleStdout rt now data w) = rest)"
proof (intro conjI allI impI)
  show "\<exists>segs rest. framed (stdoutBuffer w @ data) segs rest" by (rule framing_exists)
next
  fix segs rest
  assume f: "framed (stdoutBuffer w @ data) segs rest"
  then have wf: "list_all wf_segment segs" and r: "CHR 0x0A \<notin> set rest"
    and s: "stdoutBuffer w @ data = concat (map (\<lambda>sg. segment_text sg @ [CHR 0x0A]) segs) @ rest"
    by (simp_all add: framed_def)
  have sp: "split_nl (stdoutBuffer w @ data) = map segment_text segs @ [rest]"
    unfolding s using wf r by (rule split_nl_framed)
  show e: "handleStdout rt now data w
           = deliver now (concat (map (segment_messages rt) segs)) (w\<lparr> stdoutBuffer := rest \<rparr>)"
    by (simp add: handleStdout_def Let_def sp foldl_handle_line_segments[OF wf])
  show "stdoutBuffer (handleStdout rt now data w) = rest"
    by (simp add: e)
qed

theorem stream_buffer_framing_witness:
  \<open>framed (stdoutBuffer busy_provider @ padded_chunk) padded_segments ''{"type":"result"''
   \<and> concat (map (segment_messages example_runtime) padded_segments) = [result_ok]
   \<and> stdoutBuffer (handleStdout example_runtime 30 padded_chunk busy_provider) = ''{"type":"result"''
   \<and> settled (handleStdout example_runtime 30 padded_chunk busy_provider) (CallerTurn 1)
       = Some (Resolved (JStr ''ok''))
   \<and> framed (''{"type":"result","result":"ok"}'' @ [CHR 0x0A] @ ''{"type":"result"'')
        [([], ''{"type":"result","result":"ok"}'', [])] ''{"type":"result"''
   \<and> handleStdout example_runtime 0
         (''{"type":"result","result":"ok"}'' @ [CHR 0x0A] @ ''{"type":"result"'') (new_provider 0)
       = deliver 0 [result_ok] ((new_provider 0)\<lparr> stdoutBuffer := ''{"type":"result"'' \<rparr>)\<close>
proof -
  have b: "stdoutBuffer busy_provider = []"
    by (simp add: busy_provider_def model_defs example_defs)
  have f: \<open>framed (stdoutBuffer busy_provider @ padded_chunk) padded_segments ''{"type":"result"''\<close>
    unfolding b
    by (simp add: framed_def wf_segment_def segment_text_def is_blank_def
          padded_chunk_def padded_segments_def)
  have m: "concat (map (segment_messages example_runtime) padded_segments) = [result_ok]"
    by (simp add: segment_messages_def padded_segments_def example_runtime_def example_lines_def)
  have d: \<open>settled (deliver 30 [result_ok] (busy_provider\<lparr> stdoutBuffer := ''{"type":"result"'' \<rparr>))
             (CallerTurn 1) = Some (Resolved (JStr ''ok''))\<close>
    by (simp add: busy_provider_def deliver_def model_defs example_defs)
  have g: \<open>framed (stdoutBuffer (new_provider 0)
               @ ''{"type":"result","result":"ok"}'' @ [CHR 0x0A] @ ''{"type":"result"'')
             [([], ''{"type":"result","result":"ok"}'', [])] ''{"type":"result"''\<close>
    by (simp add: framed_def wf_segment_def segment_text_def is_blank_def new_provider_def)
  have n: \<open>concat (map (segment_messages example_runtime) [([], ''{"type":"result","result":"ok"}'', [])])
             = [result_ok]\<close>
    by (simp add: segment_messages_def example_runtime_def example_lines_def)
  have h: "stdoutBuffer (new_provider 0) = []" by (simp add: new_provider_def)
  from stream_buffer_framing[of busy_provider padded_chunk example_runtime 30] f
  have 1: \<open>handleStdout example_runtime 30 padded_chunk busy_provider
             = deliver 30 (concat (map (segment_messages example_runtime) padded_segments))
                 (busy_provider\<lparr> stdoutBuffer := ''{"type":"result"'' \<rparr>)
           \<and> stdoutBuffer (handleStdout example_runtime 30 padded_chunk busy_provider)
               = ''{"type":"result"''\<close>
    by blast
  from stream_buffer_framing[of "new_provider 0"
         \<open>''{"type":"result","result":"ok"}'' @ [CHR 0x0A] @ ''{"type":"result"''\<close> example_runtime 0] g
  have 2: \<open>handleStdout example_runtime 0
             (''{"type":"result","result":"ok"}'' @ [CHR 0x0A] @ ''{"type":"result"'') (new_provider 0)
           = deliver 0 (concat (map (segment_messages example_runtime)
                                  [([], ''{"type":"result","result":"ok"}'', [])]))
               ((new_provider 0)\<lparr> stdoutBuffer := ''{"type":"result"'' \<rparr>)\<close>
    by blast
  from g h have g': \<open>framed (''{"type":"result","result":"ok"}'' @ [CHR 0x0A] @ ''{"type":"result"'')
        [([], ''{"type":"result","result":"ok"}'', [])] ''{"type":"result"''\<close>
    by simp
  from 1 have r1: \<open>stdoutBuffer (handleStdout example_runtime 30 padded_chunk busy_provider)
                    = ''{"type":"result"''\<close> ..
  from 1 d m have r2: "settled (handleStdout example_runtime 30 padded_chunk busy_provider) (CallerTurn 1)
       = Some (Resolved (JStr ''ok''))"
    by (simp only:)
  from 2 n have r3: \<open>handleStdout example_runtime 0
         (''{"type":"result","result":"ok"}'' @ [CHR 0x0A] @ ''{"type":"result"'') (new_provider 0)
       = deliver 0 [result_ok] ((new_provider 0)\<lparr> stdoutBuffer := ''{"type":"result"'' \<rparr>)\<close>
    by (simp only:)
  from f m r1 r2 g' r3 show ?thesis by (intro conjI)
qed

section \<open>Timeouts and readiness\<close>

theorem timeout_leaves_statistics_witness:
  "TurnTimeout (CallerTurn 1) \<in> timers busy_provider
   \<and> (\<forall>h d. TimerFires (TurnTimeout (CallerTurn 1)) \<noteq> StdoutData h d)
   \<and> stats (step example_runtime busy_provider (120020, TimerFires (TurnTimeout (CallerTurn 1))))
       = stats busy_provider
   \<and> errors (stats (step example_runtime busy_provider (120020, TimerFires (TurnTimeout (CallerTurn 1)))))
       = errors (stats busy_provider)"
  using timeout_leaves_statistics[of example_runtime busy_provider 120020 "CallerTurn 1"
          "TimerFires (TurnTimeout (CallerTurn 1))"] busy_provider_facts
  by simp

text \<open>
  C6. When the timer of a turn fires (it is still armed, so no terminal message came),
  its callback rejects the turn's promise with the timeout error, leaves no promise
  pending and sets the state to \<open>READY\<close>; it sends no signal and writes nothing (the
  I/O log is unchanged) and keeps the process handle. For a turn opened by
  \<open>complete()\<close> this is also the situation at the end of the macrotask, with the
  call rejected by that error.
\<close>

theorem turn_timeout_keeps_process:
  assumes "TurnTimeout t \<in> timers w"
  shows "(let w' = callback rt now (TimerFires (TurnTimeout t)) w in
            settled w' t = Some (Rejected (TimeoutAfter (timeout w)))
            \<and> pendingPromise w' = None \<and> state w' = READY
            \<and> process w' = process w \<and> io w' = io w \<and> TurnTimeout t \<notin> timers w')
         \<and> (\<forall>c. t = CallerTurn c \<and> \<not> crashed w \<and> microtasks w = [] \<longrightarrow>
              (let w'' = step rt w (now, TimerFires (TurnTimeout t)) in
                 callers w'' c = Some (Done (Rejected (TimeoutAfter (timeout w))))
                 \<and> pendingPromise w'' = None \<and> state w'' = READY
                 \<and> process w'' = process w \<and> io w'' = io w))"
  using assms
  by (auto simp: step_def drain_def turn_timeout_def settle_def Let_def)

theorem turn_timeout_keeps_process_witness:
  "TurnTimeout (CallerTurn 1) \<in> timers busy_provider
   \<and> \<not> crashed busy_provider \<and> microtasks busy_provider = []
   \<and> (let w'' = step example_runtime busy_provider (120020, TimerFires (TurnTimeout (CallerTurn 1))) in
        callers w'' 1 = Some (Done (Rejected (TimeoutAfter 120000)))
        \<and> pendingPromise w'' = None \<and> state w'' = READY
        \<and> process w'' = process busy_provider \<and> io w'' = io busy_provider)"
proof -
  have a: "TurnTimeout (CallerTurn 1) \<in> timers busy_provider"
    using busy_provider_facts by simp
  show ?thesis
    using turn_timeout_keeps_process[OF a, of example_runtime 120020] busy_provider_facts
    by (simp add: Let_def)
qed

text \<open>
  C9. A call of \<open>complete()\<close> made in state \<open>STARTING\<close> or \<open>ERROR\<close> is rejected at once
  with \<open>Provider not ready\<close> and changes nothing else: it starts no process and arms no
  timer. A call starts a process exactly when the state is \<open>STOPPED\<close>, and parks on
  the \<open>checkReady\<close> interval exactly when the state is \<open>BUSY\<close>.
\<close>

theorem complete_rejects_when_not_ready:
  "(state w = STARTING \<or> state w = ERROR \<longrightarrow>
      complete rt now c prompt sp w =
        w\<lparr> callers := (callers w)(c \<mapsto> Done (Rejected (ProviderNotReady (state w)))) \<rparr>)
   \<and> ((coldStarts (stats (complete rt now c prompt sp w)) \<noteq> coldStarts (stats w)) = (state w = STOPPED))
   \<and> ((\<exists>q. callers (complete rt now c prompt sp w) c = Some (Polling q)) = (state w = BUSY))
   \<and> ((CheckReady c \<in> timers (complete rt now c prompt sp w) \<and> CheckReady c \<notin> timers w)
         \<longrightarrow> state w = BUSY)"
proof -
  have 1: "state w = STARTING \<or> state w = ERROR \<longrightarrow>
      complete rt now c prompt sp w =
        w\<lparr> callers := (callers w)(c \<mapsto> Done (Rejected (ProviderNotReady (state w)))) \<rparr>"
    by (auto simp: complete_def persistentComplete_def complete_wait_def complete_send_def Let_def)
  have 2: "(coldStarts (stats (complete rt now c prompt sp w)) \<noteq> coldStarts (stats w)) = (state w = STOPPED)"
    by (simp add: complete_def persistentComplete_def stats_start Let_def)
  have 3: "(\<exists>q. callers (complete rt now c prompt sp w) c = Some (Polling q)) = (state w = BUSY)"
    by (cases "state w")
       (auto simp: complete_def persistentComplete_def complete_wait_def complete_send_def Let_def
          startPersistentProcess_def sendMessage_def settle_def
          split: sum.splits option.splits if_splits)
  have 4: "(CheckReady c \<in> timers (complete rt now c prompt sp w) \<and> CheckReady c \<notin> timers w)
         \<longrightarrow> state w = BUSY"
    by (cases "state w")
       (auto simp: complete_def persistentComplete_def complete_wait_def complete_send_def Let_def
          startPersistentProcess_def sendMessage_def settle_def
          split: sum.splits option.splits if_splits)
  from 1 2 3 4 show ?thesis by blast
qed

theorem complete_rejects_when_not_ready_witness:
  "state failed_provider = ERROR
   \<and> complete example_runtime 20 1 ''again'' None failed_provider =
       failed_provider\<lparr> callers := (callers failed_provider)(1 \<mapsto> Done (Rejected (ProviderNotReady ERROR))) \<rparr>
   \<and> state busy_provider = BUSY
   \<and> CheckReady 2 \<in> timers (complete example_runtime 30 2 ''next'' None busy_provider)
   \<and> CheckReady 2 \<notin> timers busy_provider"
proof -
  have b: "CheckReady 2 \<in> timers (complete example_runtime 30 2 ''next'' None busy_provider)
           \<and> CheckReady 2 \<notin> timers busy_provider"
    by (simp add: busy_provider_def model_defs example_defs)
  show ?thesis
    using complete_rejects_when_not_ready[of failed_provider example_runtime 20 1 "''again''" None]
      complete_rejects_when_not_ready[of busy_provider example_runtime 30 2 "''next''" None]
      failed_provider_facts busy_provider_facts b
    by simp
qed

section \<open>Serialisation of turns\<close>

lemma owned_quiet_settled:
  "owned w \<Longrightarrow> pendingPromise w = None \<Longrightarrow> (a, b) \<in> set (opened w) \<Longrightarrow> settled w a \<noteq> None"
  by (fastforce simp: owned_def)

lemma serial_sendMessage:
  assumes "owned w" and "pendingPromise w = None" and "microtasks w = []"
    and "sendMessage rt now t content w = Inr w'"
  shows "settled_down w'"
proof -
  have all: "\<forall>x \<in> set (opened w). settled w (fst x) \<noteq> None"
    using owned_quiet_settled[OF assms(1,2)] by auto
  then have "open_turns w = []"
    by (auto simp: open_turns_def filter_empty_conv)
  with assms all show ?thesis
    by (fastforce simp: sendMessage_def settled_down_def serial_def owned_def
             split: option.splits if_splits)
qed

lemma owned_microtasks [simp]: "owned (w\<lparr> microtasks := m \<rparr>) = owned w"
  by (simp add: owned_def)

lemma owned_callers [simp]: "owned (w\<lparr> callers := f \<rparr>) = owned w"
  by (simp add: owned_def)

lemma settled_down_callers [simp]: "settled_down (w\<lparr> callers := f \<rparr>) = settled_down w"
  by (simp add: settled_down_def serial_def owned_def)

lemma settled_down_pending: "settled_down w \<Longrightarrow> state w \<noteq> BUSY \<Longrightarrow> pendingPromise w = None"
  by (simp add: settled_down_def serial_def)

lemma settled_down_owned: "settled_down w \<Longrightarrow> owned w"
  by (simp add: settled_down_def serial_def)

lemma settled_down_micro: "settled_down w \<Longrightarrow> microtasks w = []"
  by (simp add: settled_down_def)

lemma settled_down_complete_send:
  assumes "settled_down w"
  shows "settled_down (complete_send rt now c prompt w)"
proof (cases "state w = READY")
  case False
  with assms show ?thesis by (simp add: complete_send_def)
next
  case True
  then have p: "pendingPromise w = None" using assms by (simp add: settled_down_pending)
  show ?thesis
  proof (cases "sendMessage rt now (CallerTurn c) prompt w")
    case (Inl e)
    with True assms show ?thesis by (simp add: complete_send_def)
  next
    case (Inr w')
    then have "settled_down w'"
      using serial_sendMessage[OF settled_down_owned[OF assms] p settled_down_micro[OF assms]] by blast
    with True Inr show ?thesis by (simp add: complete_send_def)
  qed
qed

lemma settled_down_timers_CheckReady:
  "settled_down (w\<lparr> timers := insert (CheckReady c) (timers w) \<rparr>) = settled_down w"
  "settled_down (w\<lparr> timers := timers w - {CheckReady c} \<rparr>) = settled_down w"
  "settled_down (w\<lparr> timers := timers w - {WarmupTimeout k} \<rparr>) = settled_down w"
  by (simp_all add: settled_down_def serial_def owned_def)

lemma settled_down_complete_wait:
  "settled_down w \<Longrightarrow> settled_down (complete_wait rt now c prompt w)"
  by (simp add: complete_wait_def settled_down_complete_send)
     (simp add: settled_down_def serial_def owned_def)

lemma settled_down_check_ready:
  "settled_down w \<Longrightarrow> settled_down (check_ready rt now c w)"
  by (auto simp: check_ready_def settled_down_complete_send settled_down_timers_CheckReady
           split: option.splits caller.splits)

lemma settled_down_initSettled [simp]: "settled_down (w\<lparr> initSettled := f \<rparr>) = settled_down w"
  by (simp add: settled_down_def serial_def owned_def)

lemma settled_down_settle_init:
  "settled_down w \<Longrightarrow> settled_down (settle_init rt now k out w)"
  by (auto simp: settle_init_def Let_def settled_down_complete_wait
           split: option.splits caller.splits outcome.splits)

lemma foldl_resolve_wait_shape:
  "\<exists>f. foldl (resolve_wait out) w js = w\<lparr> waitSettled := f \<rparr>"
proof (induction js arbitrary: w)
  case Nil
  have "w = w\<lparr> waitSettled := waitSettled w \<rparr>" by simp
  then show ?case by (metis foldl_Nil)
next
  case (Cons j js)
  obtain g where g: "resolve_wait out w j = w\<lparr> waitSettled := g \<rparr>"
    by (cases "waitSettled w j = None") (auto simp: resolve_wait_def intro: that[of "waitSettled w"])
  from Cons.IH[of "w\<lparr> waitSettled := g \<rparr>"] obtain f where
    "foldl (resolve_wait out) (w\<lparr> waitSettled := g \<rparr>) js = w\<lparr> waitSettled := g, waitSettled := f \<rparr>"
    by blast
  with g show ?case by (auto intro: exI[of _ f])
qed

lemma emit_ready_shape: "\<exists>f. emit_ready w = w\<lparr> readyListeners := [], waitSettled := f \<rparr>"
  using foldl_resolve_wait_shape[of "Resolved (JBool True)" "w\<lparr> readyListeners := [] \<rparr>" "readyListeners w"]
  by (simp add: emit_ready_def)

lemma settled_down_waits [simp]:
  "settled_down (w\<lparr> readyListeners := l \<rparr>) = settled_down w"
  "settled_down (w\<lparr> waitSettled := f \<rparr>) = settled_down w"
  by (simp_all add: settled_down_def serial_def owned_def)

lemma settled_down_emit_ready: "settled_down (emit_ready w) = settled_down w"
  using emit_ready_shape[of w] by auto

lemma quiet_ready:
  "owned w \<Longrightarrow> pendingPromise w = None \<Longrightarrow> microtasks w = [] \<Longrightarrow>
   settled_down (w\<lparr> timers := timers w - {WarmupTimeout k}, state := READY \<rparr>)
   \<and> settled_down (w\<lparr> timers := timers w - {WarmupTimeout k}, state := ERROR \<rparr>)"
  by (simp add: settled_down_def serial_def owned_def)

lemma settled_down_warmup_then:
  "owned w \<Longrightarrow> pendingPromise w = None \<Longrightarrow> microtasks w = [] \<Longrightarrow>
   settled_down (warmup_then rt now k w)"
  by (simp add: warmup_then_def settled_down_settle_init settled_down_emit_ready quiet_ready)

lemma settled_down_warmup_catch:
  "owned w \<Longrightarrow> pendingPromise w = None \<Longrightarrow> microtasks w = [] \<Longrightarrow>
   settled_down (warmup_catch rt now k e w)"
  using quiet_ready[of w k]
  by (simp add: warmup_catch_def Let_def settled_down_settle_init settled_down_emit_ready)

lemma settled_down_react:
  assumes "owned w" and "pendingPromise w = None" and "microtasks w = []"
    and "state w = STARTING \<longrightarrow> (\<exists>k e. x = (WarmupTurn k, Rejected e))"
    and "state w \<noteq> BUSY"
  shows "settled_down (react rt now w x)"
proof (cases "(rt, now, w, x)" rule: react.cases)
  case (1 rt' now' w' k v)
  with assms show ?thesis by (simp add: settled_down_warmup_then)
next
  case (2 rt' now' w' k e)
  with assms show ?thesis by (simp add: settled_down_warmup_catch)
next
  case (3 rt' now' w' c out)
  with assms show ?thesis by (auto simp: settled_down_def serial_def)
qed


lemma settled_down_drain:
  assumes "serial w"
  shows "settled_down (drain rt now w)"
proof (cases "microtasks w")
  case Nil
  then have "drain rt now w = w" by (simp add: drain_def)
  with Nil assms show ?thesis by (simp add: settled_down_def)
next
  case (Cons x xs)
  with assms have xs: "xs = []" by (simp add: serial_def)
  from Cons assms have p: "pendingPromise w = None" by (auto simp: serial_def)
  from assms p have nb: "state w \<noteq> BUSY" by (simp add: serial_def)
  from assms Cons xs have st: "state w = STARTING \<longrightarrow> (\<exists>k e. x = (WarmupTurn k, Rejected e))"
    by (auto simp: serial_def)
  from assms have o: "owned w" by (simp add: serial_def)
  have "drain rt now w = react rt now (w\<lparr> microtasks := [] \<rparr>) x"
    using Cons xs by (simp add: drain_def)
  moreover have "settled_down (react rt now (w\<lparr> microtasks := [] \<rparr>) x)"
    using o p st nb by (intro settled_down_react) simp_all
  ultimately show ?thesis by simp
qed


lemma serial_set_response:
  "serial w \<Longrightarrow> serial (set_response r w)"
  by (cases "pendingPromise w") (auto simp: set_response_def serial_def owned_def)

lemma serial_handle_result:
  assumes "serial w" and "pendingPromise w = Some p"
  shows "serial (handle_result now p m w)"
proof -
  from assms have o: "owned w" and m: "microtasks w = []" by (auto simp: serial_def)
  from o assms(2) have t: "\<forall>t. TurnTimeout t \<in> timers w \<longrightarrow> t = turn p"
    and s: "\<forall>x \<in> set (opened w). settled w (fst x) = None \<longrightarrow> fst x = turn p"
    and e: "\<forall>x \<in> set (opened w). snd x = []" and c: "shutdownWatch w = []" "\<not> crashed w" "errorListeners w = []"
    by (auto simp: owned_def)
  show ?thesis
    using t s e c m
    by (auto simp: handle_result_def Let_def pending_resolve_def settle_def serial_def owned_def)
qed

lemma serial_handle_error:
  assumes "serial w" and "pendingPromise w = Some p"
  shows "serial (fst (handle_error p m w))"
proof -
  from assms have o: "owned w" and m: "microtasks w = []" and b: "state w = BUSY"
    by (auto simp: serial_def)
  from o assms(2) have t: "\<forall>t. TurnTimeout t \<in> timers w \<longrightarrow> t = turn p"
    and s: "\<forall>x \<in> set (opened w). settled w (fst x) = None \<longrightarrow> fst x = turn p"
    and e: "\<forall>x \<in> set (opened w). snd x = []"
    and c: "shutdownWatch w = []" "\<not> crashed w" "errorListeners w = []"
    by (auto simp: owned_def)
  show ?thesis
    using t s e c m b assms(2)
    by (auto simp: handle_error_def Let_def pending_reject_def settle_def serial_def owned_def
             split: option.splits)
qed

lemma serial_handle_assistant:
  "serial w \<Longrightarrow> serial (fst (handle_assistant p m w))"
  by (auto simp: handle_assistant_def Let_def serial_set_response
           split: option.splits json.splits prod.splits)

lemma serial_handleMessage:
  "serial w \<Longrightarrow> serial (fst (handleMessage now m w))"
  by (auto simp: handleMessage_def serial_handle_result serial_handle_error serial_handle_assistant
           split: option.splits)

lemma serial_handle_line:
  "serial w \<Longrightarrow> serial (handle_line rt now w l)"
  by (simp add: handle_line_def Let_def serial_handleMessage split: option.splits)

lemma serial_foldl_handle_line:
  "serial w \<Longrightarrow> serial (foldl (handle_line rt now) w ls)"
  by (induction ls arbitrary: w) (simp_all add: serial_handle_line)

lemma serial_stdoutBuffer [simp]: "serial (w\<lparr> stdoutBuffer := b \<rparr>) = serial w"
  by (simp add: serial_def owned_def)

lemma serial_handleStdout:
  "serial w \<Longrightarrow> serial (handleStdout rt now data w)"
  by (simp add: handleStdout_def Let_def serial_foldl_handle_line)

lemma serial_exit_handler:
  assumes "settled_down w"
  shows "serial (exit_handler (w\<lparr> exited := X \<rparr>))"
proof (cases "pendingPromise w")
  case None
  with assms show ?thesis
    by (auto simp: exit_handler_def Let_def settled_down_def serial_def owned_def)
next
  case (Some p)
  from assms have o: "owned w" and m: "microtasks w = []" by (auto simp: settled_down_def serial_def)
  from o Some have t: "\<forall>t. TurnTimeout t \<in> timers w \<longrightarrow> t = turn p"
    and s: "\<forall>x \<in> set (opened w). settled w (fst x) = None \<longrightarrow> fst x = turn p"
    and e: "\<forall>x \<in> set (opened w). snd x = []" and c: "shutdownWatch w = []" "\<not> crashed w" "errorListeners w = []"
    by (auto simp: owned_def)
  show ?thesis
    using t s e c m Some
    by (auto simp: exit_handler_def Let_def pending_reject_def settle_def serial_def owned_def)
qed

lemma watch_exit_handler: "shutdownWatch (exit_handler w) = shutdownWatch w"
  by (simp add: exit_handler_def Let_def pending_reject_def settle_def split: option.splits)

lemma serial_turn_timeout:
  assumes "settled_down w" and "TurnTimeout t \<in> timers w"
  shows "serial (turn_timeout t (w\<lparr> timers := timers w - {TurnTimeout t} \<rparr>))"
proof -
  from assms have o: "owned w" and m: "microtasks w = []" by (auto simp: settled_down_def serial_def)
  from o assms(2) obtain p where p: "pendingPromise w = Some p" "turn p = t"
    by (auto simp: owned_def)
  from o p have tt: "\<forall>u. TurnTimeout u \<in> timers w \<longrightarrow> u = t"
    and s: "\<forall>x \<in> set (opened w). settled w (fst x) = None \<longrightarrow> fst x = t"
    and e: "\<forall>x \<in> set (opened w). snd x = []" and c: "shutdownWatch w = []" "\<not> crashed w" "errorListeners w = []"
    by (auto simp: owned_def)
  show ?thesis
    using tt s e c m
    by (auto simp: turn_timeout_def settle_def serial_def owned_def)
qed

lemma serial_start:
  assumes "owned w" and "pendingPromise w = None" and "microtasks w = []"
  shows "serial (startPersistentProcess rt now owner w)"
proof -
  let ?k = "coldStarts (stats w) + 1"
  let ?w3 = "w\<lparr> state := STARTING, stats := (stats w)\<lparr> coldStarts := ?k \<rparr>,
               process := Some ((spawn rt ?k)\<lparr> handle := ?k \<rparr>),
               io := io w @ [Spawn ?k],
               initOwner := (initOwner w)(?k := owner),
               timers := insert (WarmupTimeout ?k) (timers w) \<rparr>"
  have o3: "owned ?w3" using assms(1) by (simp add: owned_def)
  have p3: "pendingPromise ?w3 = None" "microtasks ?w3 = []" using assms by simp_all
  have eq: "startPersistentProcess rt now owner w =
        (case sendMessage rt now (WarmupTurn ?k) ''Hello'' ?w3 of
           Inr w4 \<Rightarrow> w4 | Inl e \<Rightarrow> settle (WarmupTurn ?k) (Rejected e) ?w3)"
    by (simp add: startPersistentProcess_def Let_def split: sum.splits)
  show ?thesis
  proof (cases "sendMessage rt now (WarmupTurn ?k) ''Hello'' ?w3")
    case (Inr w4)
    then have "settled_down w4" using serial_sendMessage[OF o3 p3] by blast
    with Inr eq show ?thesis by (simp add: settled_down_def)
  next
    case (Inl e)
    have "serial (settle (WarmupTurn ?k) (Rejected e) ?w3)"
      using assms by (auto simp: settle_def serial_def owned_def)
    with Inl eq show ?thesis by simp
  qed
qed

lemma settled_down_not_starting: "settled_down w \<Longrightarrow> state w \<noteq> STARTING"
  by (auto simp: settled_down_def serial_def)

lemma serial_callback:
  assumes "settled_down w" and "admitted w e" and "\<forall>h err. e \<noteq> ProcessError h err"
  shows "serial (callback rt now e w)"
proof -
  from assms(1) have ser: "serial w" and o: "owned w" and m: "microtasks w = []"
    and ns: "state w \<noteq> STARTING"
    by (auto simp: settled_down_def serial_def)
  have sd: "\<And>v. settled_down v \<Longrightarrow> serial v" by (simp add: settled_down_def)
  show ?thesis
  proof (cases e)
    case (CallComplete c prompt sp)
    show ?thesis
    proof (cases "state w = STOPPED")
      case True
      then have p: "pendingPromise w = None" using assms(1) by (simp add: settled_down_pending)
      have "serial (startPersistentProcess rt now (Some c)
                (w\<lparr> callers := (callers w)(c \<mapsto> AwaitInit (coldStarts (stats w) + 1) x) \<rparr>))" for x
        using o p m by (intro serial_start) simp_all
      with True CallComplete ser show ?thesis
        by (simp add: complete_def persistentComplete_def Let_def)
    next
      case False
      with CallComplete ser sd[OF settled_down_complete_wait[OF assms(1)]] show ?thesis
        by (simp add: complete_def persistentComplete_def Let_def)
    qed
  next
    case (CallInitialize j)
    with assms(2) have nb: "state w \<noteq> BUSY" by simp
    then have p: "pendingPromise w = None" using assms(1) by (simp add: settled_down_pending)
    have r: "serial (resolve_wait (Resolved (JBool True)) w j)"
      using ser by (simp add: resolve_wait_def serial_def owned_def)
    from CallInitialize ns r serial_start[OF o p m] show ?thesis
      by (simp add: initialize_def)
  next
    case CallShutdown
    with assms(2) show ?thesis by simp
  next
    case (StdoutData h d)
    with ser show ?thesis by (simp add: serial_handleStdout)
  next
    case (ProcessExit h)
    from o have sw: "shutdownWatch w = []" by (simp add: owned_def)
    have "serial (exit_handler (w\<lparr> exited := insert h (exited w) \<rparr>))"
      using assms(1) by (rule serial_exit_handler)
    moreover have "shutdownWatch (exit_handler (w\<lparr> exited := insert h (exited w) \<rparr>)) = []"
      using sw by (simp add: watch_exit_handler)
    ultimately show ?thesis using ProcessExit ser
      by (simp add: Let_def serial_def owned_def)
  next
    case (ProcessError h err)
    with assms(3) show ?thesis by simp
  next
    case (TimerFires t)
    show ?thesis
    proof (cases "t \<in> timers w")
      case False
      with TimerFires ser show ?thesis by simp
    next
      case True
      show ?thesis
      proof (cases t)
        case (TurnTimeout tn)
        with True TimerFires serial_turn_timeout[OF assms(1), of tn] show ?thesis by simp
      next
        case (WarmupTimeout k)
        with True TimerFires ns ser show ?thesis
          by (auto simp: warmup_timeout_def serial_def owned_def)
      next
        case (CheckReady c)
        with True TimerFires sd[OF settled_down_check_ready[OF assms(1)]] show ?thesis by simp
      next
        case (ForceKillTimeout n)
        with TimerFires assms(2) show ?thesis by simp
      next
        case (SigtermTimeout n)
        with TimerFires assms(2) show ?thesis by simp
      qed
    qed
  qed
qed

lemma halted_error_event:
  assumes "settled_down w"
  shows "step rt w (now, ProcessError h err) = w \<or> halted (step rt w (now, ProcessError h err))"
proof (cases "spawned w h")
  case False
  with assms show ?thesis
    by (simp add: step_def drain_def settled_down_def serial_def owned_def)
next
  case True
  from assms have "errorListeners w = []" "microtasks w = []" "\<not> crashed w"
    and "\<forall>x \<in> set (opened w). settled w (fst x) = None \<longrightarrow>
            (\<exists>p. pendingPromise w = Some p \<and> turn p = fst x)"
    and "\<forall>x \<in> set (opened w). snd x = []"
    by (auto simp: settled_down_def serial_def owned_def)
  with True have "halted (step rt w (now, ProcessError h err))"
    by (simp add: step_def drain_def error_handler_def Let_def halted_def)
  then show ?thesis ..
qed

lemma settled_down_step:
  assumes "settled_down w" and "admitted w (snd te)"
  shows "settled_down (step rt w te) \<or> halted (step rt w te)"
proof (cases "\<exists>h err. snd te = ProcessError h err")
  case True
  then obtain h err where "te = (fst te, ProcessError h err)" by (cases te) auto
  with halted_error_event[OF assms(1), of rt "fst te" h err] assms(1) show ?thesis by metis
next
  case False
  from assms(1) have "\<not> crashed w" by (simp add: settled_down_def serial_def owned_def)
  then have "step rt w te = drain rt (fst te) (callback rt (fst te) (snd te) w)"
    by (simp add: step_def)
  moreover have "serial (callback rt (fst te) (snd te) w)"
    using assms False by (intro serial_callback) auto
  ultimately show ?thesis using settled_down_drain by simp
qed

lemma halted_step: "halted w \<Longrightarrow> step rt w te = w"
  by (simp add: step_def halted_def)

lemma settled_down_run:
  "settled_down w \<or> halted w \<Longrightarrow> admissible rt w tes \<Longrightarrow>
   settled_down (run rt w tes) \<or> halted (run rt w tes)"
proof (induction tes arbitrary: w)
  case Nil
  then show ?case by (simp add: run_def)
next
  case (Cons te tes)
  have "settled_down (step rt w te) \<or> halted (step rt w te)"
  proof (cases "halted w")
    case True
    then show ?thesis by (simp add: halted_step)
  next
    case False
    with Cons.prems show ?thesis by (simp add: settled_down_step)
  qed
  with Cons have "settled_down (run rt (step rt w te) tes) \<or> halted (run rt (step rt w te) tes)"
    by simp
  then show ?case by (simp add: run_def)
qed

lemma settled_down_new: "settled_down (new_provider t)"
  by (simp add: settled_down_def serial_def owned_def new_provider_def)

lemma open_turns_owned:
  assumes "owned w \<or> halted w"
  shows "set (open_turns w) \<subseteq> (case pendingPromise w of None \<Rightarrow> {} | Some p \<Rightarrow> {turn p})"
  using assms by (fastforce simp: open_turns_def owned_def halted_def split: option.splits)

text \<open>
  Where the serialisation holds. In every run made of calls of \<open>complete()\<close>, subprocess
  output, exit and \<open>'error'\<close> events, and the timers these arm (with \<open>initialize()\<close>
  called only while no turn is open, and \<open>shutdown()\<close> not called), whatever the number
  of concurrent callers: every promise of \<open>_sendMessage\<close>, and so every write to the
  subprocess input, was made at a moment when no earlier turn was open, and at any time
  the only turn that can be open is the pending one.
\<close>

theorem turns_are_serialised:
  assumes "admissible rt (new_provider t) tes"
  shows "let w = run rt (new_provider t) tes in
           (\<forall>x \<in> set (opened w). snd x = [])
           \<and> set (open_turns w) \<subseteq> (case pendingPromise w of None \<Rightarrow> {} | Some p \<Rightarrow> {turn p})"
proof -
  have "settled_down (run rt (new_provider t) tes) \<or> halted (run rt (new_provider t) tes)"
    using settled_down_new assms by (intro settled_down_run) simp_all
  then have o: "owned (run rt (new_provider t) tes) \<or> halted (run rt (new_provider t) tes)"
    by (auto dest: settled_down_owned)
  then have "\<forall>x \<in> set (opened (run rt (new_provider t) tes)). snd x = []"
    by (auto simp: owned_def halted_def)
  with open_turns_owned[OF o] show ?thesis by (simp add: Let_def)
qed

theorem turns_are_serialised_witness:
  "admissible example_runtime (new_provider 0) two_callers
   \<and> opened (run example_runtime (new_provider 0) two_callers)
       = [(WarmupTurn 1, []), (CallerTurn 1, []), (CallerTurn 2, [])]
   \<and> open_turns (run example_runtime (new_provider 0) two_callers) = [CallerTurn 2]
   \<and> pendingPromise (run example_runtime (new_provider 0) two_callers)
       = Some \<lparr> turn = CallerTurn 2, response = [], startTime = 230 \<rparr>"
proof -
  have a: "admissible example_runtime (new_provider 0) two_callers"
    by (simp add: two_callers_def model_defs example_defs)
  have b: "opened (run example_runtime (new_provider 0) two_callers)
       = [(WarmupTurn 1, []), (CallerTurn 1, []), (CallerTurn 2, [])]
     \<and> open_turns (run example_runtime (new_provider 0) two_callers) = [CallerTurn 2]
     \<and> pendingPromise (run example_runtime (new_provider 0) two_callers)
       = Some \<lparr> turn = CallerTurn 2, response = [], startTime = 230 \<rparr>"
    by (simp add: two_callers_def model_defs example_defs)
  show ?thesis
    using turns_are_serialised[OF a] a b by simp
qed

text \<open>
  C1 on the code. Two paths open a turn over an open one, so that a caller who issued
  \<open>complete()\<close> in state \<open>BUSY\<close> later writes while an earlier turn is neither resolved
  nor rejected, and two turns are open together.

  First run: call 1 has its turn open; \<open>initialize()\<close> is called. The state is \<open>BUSY\<close>,
  which is neither \<open>READY\<close> nor \<open>STARTING\<close>, so a second process is spawned and its
  warmup promise replaces the pending one. Call 2 arrives in \<open>BUSY\<close> and parks; the
  warmup result sets \<open>READY\<close>; the next tick of call 2 writes its prompt, while the
  turn of call 1 is still open.

  Second run: call 1 has its turn open; \<open>shutdown()\<close> is called and the process does not
  exit; the force-kill callback sets \<open>STOPPED\<close> and drops the handle but leaves the
  pending promise. Call 2 then starts a new process, call 3 arrives in \<open>BUSY\<close> and
  parks, and both write while the turn of call 1 is still open.
\<close>

theorem second_turn_overlaps_first:
  "state (run example_runtime (new_provider 0) (take 4 restart_while_busy)) = BUSY
   \<and> opened (run example_runtime (new_provider 0) restart_while_busy)
       = [(WarmupTurn 1, []), (CallerTurn 1, []),
          (WarmupTurn 2, [CallerTurn 1]), (CallerTurn 2, [CallerTurn 1])]
   \<and> settled (run example_runtime (new_provider 0) restart_while_busy) (CallerTurn 1) = None
   \<and> open_turns (run example_runtime (new_provider 0) restart_while_busy)
       = [CallerTurn 1, CallerTurn 2]
   \<and> callers (run example_runtime (new_provider 0) restart_while_busy) 1 = Some AwaitTurn
   \<and> callers (run example_runtime (new_provider 0) restart_while_busy) 2 = Some AwaitTurn
   \<and> io (run example_runtime (new_provider 0) restart_while_busy)
       = [Spawn 1, StdinWrite 1 (''{}'' @ [CHR 0x0A]), StdinWrite 1 (''{}'' @ [CHR 0x0A]),
          Spawn 2, StdinWrite 2 (''{}'' @ [CHR 0x0A]), StdinWrite 2 (''{}'' @ [CHR 0x0A])]
   \<and> state (run example_runtime (new_provider 0) (take 7 kill_then_complete)) = BUSY
   \<and> opened (run example_runtime (new_provider 0) kill_then_complete)
       = [(WarmupTurn 1, []), (CallerTurn 1, []), (WarmupTurn 2, [CallerTurn 1]),
          (CallerTurn 2, [CallerTurn 1]), (CallerTurn 3, [CallerTurn 1])]
   \<and> settled (run example_runtime (new_provider 0) kill_then_complete) (CallerTurn 1) = None
   \<and> open_turns (run example_runtime (new_provider 0) kill_then_complete)
       = [CallerTurn 1, CallerTurn 3]"
  by (simp add: restart_while_busy_def kill_then_complete_def model_defs example_defs)

section \<open>Process exit\<close>

lemma process_sendMessage: "sendMessage rt now t content w = Inr w' \<Longrightarrow> process w' = process w"
  by (auto simp: sendMessage_def split: option.splits if_splits)

lemma io_sendMessage: "sendMessage rt now t content w = Inr w' \<Longrightarrow> prefix (io w) (io w')"
  by (auto simp: sendMessage_def split: option.splits if_splits)

lemma process_complete_send [simp]: "process (complete_send rt now c prompt w) = process w"
  by (auto simp: complete_send_def dest: process_sendMessage split: sum.splits)

lemma io_complete_send: "prefix (io w) (io (complete_send rt now c prompt w))"
  by (auto simp: complete_send_def dest: io_sendMessage split: sum.splits)

lemma process_complete_wait [simp]: "process (complete_wait rt now c prompt w) = process w"
  by (simp add: complete_wait_def)

lemma io_complete_wait: "prefix (io w) (io (complete_wait rt now c prompt w))"
  by (simp add: complete_wait_def io_complete_send)

lemma process_settle_init [simp]: "process (settle_init rt now k out w) = process w"
  by (simp add: settle_init_def Let_def split: option.splits caller.splits outcome.splits)

lemma io_settle_init: "prefix (io w) (io (settle_init rt now k out w))"
  using io_complete_wait[of "w\<lparr> initSettled := (initSettled w)(k \<mapsto> out) \<rparr>" rt now]
  by (auto simp: settle_init_def Let_def split: option.splits caller.splits outcome.splits)

lemma process_emit_ready [simp]: "process (emit_ready w) = process w"
  using emit_ready_shape[of w] by auto

lemma io_emit_ready [simp]: "io (emit_ready w) = io w"
  using emit_ready_shape[of w] by auto

lemma process_warmup_then [simp]: "process (warmup_then rt now k w) = process w"
  by (simp add: warmup_then_def)

lemma io_warmup_then: "prefix (io w) (io (warmup_then rt now k w))"
  using io_settle_init[of "emit_ready (w\<lparr> timers := timers w - {WarmupTimeout k}, state := READY \<rparr>)" rt now k]
  by (simp add: warmup_then_def)

lemma process_warmup_catch [simp]: "process (warmup_catch rt now k e w) = process w"
  by (simp add: warmup_catch_def Let_def)

lemma io_warmup_catch: "prefix (io w) (io (warmup_catch rt now k e w))"
  using io_settle_init[of "emit_ready (w\<lparr> timers := timers w - {WarmupTimeout k}, state := READY \<rparr>)" rt now k]
    io_settle_init[of "w\<lparr> timers := timers w - {WarmupTimeout k}, state := ERROR \<rparr>" rt now k]
  by (simp add: warmup_catch_def Let_def)

lemma process_react [simp]: "process (react rt now w x) = process w"
  by (cases "(rt, now, w, x)" rule: react.cases) simp_all

lemma io_react: "prefix (io w) (io (react rt now w x))"
  by (cases "(rt, now, w, x)" rule: react.cases) (simp_all add: io_warmup_then io_warmup_catch)

lemma process_foldl_react [simp]: "process (foldl (react rt now) w xs) = process w"
  by (induction xs arbitrary: w) simp_all

lemma io_foldl_react: "prefix (io w) (io (foldl (react rt now) w xs))"
proof (induction xs arbitrary: w)
  case Nil
  then show ?case by simp
next
  case (Cons x xs)
  have "prefix (io w) (io (react rt now w x))" by (rule io_react)
  also have "prefix \<dots> (io (foldl (react rt now) (react rt now w x) xs))" by (rule Cons.IH)
  finally show ?case by simp
qed

lemma process_drain [simp]: "process (drain rt now w) = process w"
  by (simp add: drain_def)

lemma io_drain: "prefix (io w) (io (drain rt now w))"
  using io_foldl_react[of "w\<lparr> microtasks := [] \<rparr>" rt now "microtasks w"] by (simp add: drain_def)

lemma start_process:
  "process (startPersistentProcess rt now owner w)
     = Some ((spawn rt (coldStarts (stats w) + 1))\<lparr> handle := coldStarts (stats w) + 1 \<rparr>)"
  by (auto simp: startPersistentProcess_def Let_def settle_def dest: process_sendMessage split: sum.splits)

lemma start_io:
  "prefix (io w @ [Spawn (coldStarts (stats w) + 1)]) (io (startPersistentProcess rt now owner w))"
  by (auto simp: startPersistentProcess_def Let_def settle_def dest: io_sendMessage split: sum.splits)

text \<open>What a fresh call of \<open>complete()\<close> does in state \<open>STOPPED\<close>: it spawns.\<close>

lemma complete_respawns:
  assumes "state w = STOPPED" and "\<not> crashed w" and "callers w c = None"
  shows "prefix (io w @ [Spawn (coldStarts (stats w) + 1)]) (io (step rt w (now, CallComplete c prompt sp)))
         \<and> process (step rt w (now, CallComplete c prompt sp))
             = Some ((spawn rt (coldStarts (stats w) + 1))\<lparr> handle := coldStarts (stats w) + 1 \<rparr>)
         \<and> coldStarts (stats (step rt w (now, CallComplete c prompt sp))) = coldStarts (stats w) + 1"
proof -
  let ?q = "case sp of None \<Rightarrow> prompt
            | Some s \<Rightarrow> if s = [] then prompt
                         else s @ [CHR 0x0A, CHR 0x0A] @ ''---'' @ [CHR 0x0A, CHR 0x0A] @ prompt"
  let ?w0 = "w\<lparr> callers := (callers w)(c \<mapsto> AwaitInit (coldStarts (stats w) + 1) ?q) \<rparr>"
  let ?ws = "startPersistentProcess rt now (Some c) ?w0"
  have s: "step rt w (now, CallComplete c prompt sp) = drain rt now ?ws"
    using assms by (simp add: step_def complete_def persistentComplete_def Let_def)
  have "prefix (io w @ [Spawn (coldStarts (stats w) + 1)]) (io ?ws)"
    using start_io[of ?w0 rt now "Some c"] by simp
  also have "prefix \<dots> (io (drain rt now ?ws))" by (rule io_drain)
  finally have 1: "prefix (io w @ [Spawn (coldStarts (stats w) + 1)]) (io (drain rt now ?ws))" .
  have 2: "process (drain rt now ?ws)
             = Some ((spawn rt (coldStarts (stats w) + 1))\<lparr> handle := coldStarts (stats w) + 1 \<rparr>)"
    using start_process[of rt now "Some c" ?w0] by simp
  have 3: "coldStarts (stats (drain rt now ?ws)) = coldStarts (stats w) + 1"
    by (simp add: stats_start)
  from s 1 2 3 show ?thesis by simp
qed

lemma foldl_shutdown_exit_frame:
  "settled (foldl shutdown_exit w ns) = settled w
   \<and> pendingPromise (foldl shutdown_exit w ns) = pendingPromise w
   \<and> microtasks (foldl shutdown_exit w ns) = microtasks w
   \<and> callers (foldl shutdown_exit w ns) = callers w
   \<and> io (foldl shutdown_exit w ns) = io w
   \<and> initSettled (foldl shutdown_exit w ns) = initSettled w
   \<and> initOwner (foldl shutdown_exit w ns) = initOwner w
   \<and> crashed (foldl shutdown_exit w ns) = crashed w
   \<and> (process w = None \<longrightarrow> process (foldl shutdown_exit w ns) = None)
   \<and> (state w = STOPPED \<longrightarrow> state (foldl shutdown_exit w ns) = STOPPED)"
  by (induction ns arbitrary: w) (simp_all add: shutdown_exit_def)

text \<open>The callback of an exit event while a promise is pending.\<close>

lemma exit_callback:
  assumes "pendingPromise w = Some p" and "spawned w h" and "h \<notin> exited w" and "microtasks w = []"
  shows "let w1 = callback rt now (ProcessExit h) w in
           microtasks w1 = [(turn p, Rejected ProcessExited)]
           \<and> settled w1 = (settled w)(turn p \<mapsto> Rejected ProcessExited)
           \<and> pendingPromise w1 = None \<and> process w1 = None \<and> state w1 = STOPPED
           \<and> callers w1 = callers w \<and> io w1 = io w \<and> stats w1 = stats w
           \<and> crashed w1 = crashed w \<and> initSettled w1 = initSettled w \<and> initOwner w1 = initOwner w"
proof -
  let ?w1 = "exit_handler (w\<lparr> exited := insert h (exited w) \<rparr>)"
  have e: "?w1 = (w\<lparr> exited := insert h (exited w), process := None, state := STOPPED,
                     timers := timers w - {TurnTimeout (turn p)},
                     settled := (settled w)(turn p \<mapsto> Rejected ProcessExited),
                     microtasks := [(turn p, Rejected ProcessExited)],
                     pendingPromise := None \<rparr>)"
    using assms by (simp add: exit_handler_def Let_def pending_reject_def settle_def)
  let ?w2 = "?w1\<lparr> shutdownWatch := filter (\<lambda>(h', n). h' \<noteq> h) (shutdownWatch ?w1) \<rparr>"
  have c: "callback rt now (ProcessExit h) w
             = foldl shutdown_exit ?w2 (map snd (filter (\<lambda>(h', n). h' = h) (shutdownWatch ?w1)))"
    using assms by (simp add: Let_def)
  have f: "process ?w2 = None" "state ?w2 = STOPPED" by (simp_all add: e)
  show ?thesis
    unfolding Let_def c
    using foldl_shutdown_exit_frame[of ?w2 "map snd (filter (\<lambda>(h', n). h' = h) (shutdownWatch ?w1))"] f
    by (simp add: e)
qed

lemma settle_init_rejected_frame:
  "settled (settle_init rt now k (Rejected e) w) = settled w
   \<and> pendingPromise (settle_init rt now k (Rejected e) w) = pendingPromise w"
  by (simp add: settle_init_def Let_def split: option.splits caller.splits)

text \<open>
  The exit of the subprocess while a turn is open. The turn's promise is rejected with
  the process-exited error, no promise is pending and the process handle is dropped.
  When the turn was opened by \<open>complete()\<close>, that call is rejected with the error, the
  state is \<open>STOPPED\<close>, and any later call of \<open>complete()\<close> spawns a new process, with
  a new handle.
\<close>

theorem exit_rejects_open_turn:
  assumes "\<not> crashed w" and "microtasks w = []" and "pendingPromise w = Some p"
    and "spawned w h" and "h \<notin> exited w"
  shows "let w' = step rt w (now, ProcessExit h) in
           settled w' (turn p) = Some (Rejected ProcessExited)
           \<and> pendingPromise w' = None \<and> process w' = None
           \<and> (\<forall>c. turn p = CallerTurn c \<longrightarrow>
                 callers w' c = Some (Done (Rejected ProcessExited)) \<and> state w' = STOPPED
                 \<and> (\<forall>c' now' prompt sp. callers w' c' = None \<longrightarrow>
                      (let w'' = step rt w' (now', CallComplete c' prompt sp) in
                         prefix (io w' @ [Spawn (coldStarts (stats w) + 1)]) (io w'')
                         \<and> (\<exists>pr. process w'' = Some pr \<and> handle pr = coldStarts (stats w) + 1)
                         \<and> coldStarts (stats w'') = coldStarts (stats w) + 1)))"
proof -
  let ?w1 = "callback rt now (ProcessExit h) w"
  let ?w' = "step rt w (now, ProcessExit h)"
  note cb = exit_callback[OF assms(3,4,5,2), of rt now, unfolded Let_def]
  have st: "?w' = react rt now (?w1\<lparr> microtasks := [] \<rparr>) (turn p, Rejected ProcessExited)"
    using assms(1) cb by (simp add: step_def drain_def)
  have gen: "settled ?w' (turn p) = Some (Rejected ProcessExited)
             \<and> pendingPromise ?w' = None \<and> process ?w' = None"
  proof (cases "turn p")
    case (CallerTurn c)
    with st cb show ?thesis by simp
  next
    case (WarmupTurn k)
    have "\<not> has_pid (?w1\<lparr> microtasks := [], timers := timers ?w1 - {WarmupTimeout k} \<rparr>)"
      using cb by (simp add: has_pid_def)
    then have "?w' = settle_init rt now k (Rejected ProcessExited)
                 (?w1\<lparr> microtasks := [], timers := timers ?w1 - {WarmupTimeout k}, state := ERROR \<rparr>)"
      using st WarmupTurn by (simp add: warmup_catch_def Let_def)
    then show ?thesis
      using cb WarmupTurn by (simp add: settle_init_rejected_frame)
  qed
  have call: "callers ?w' c = Some (Done (Rejected ProcessExited)) \<and> state ?w' = STOPPED
        \<and> (\<forall>c' now' prompt sp. callers ?w' c' = None \<longrightarrow>
              (let w'' = step rt ?w' (now', CallComplete c' prompt sp) in
                 prefix (io ?w' @ [Spawn (coldStarts (stats w) + 1)]) (io w'')
                 \<and> (\<exists>pr. process w'' = Some pr \<and> handle pr = coldStarts (stats w) + 1)
                 \<and> coldStarts (stats w'') = coldStarts (stats w) + 1))"
    if c: "turn p = CallerTurn c" for c
  proof -
    have w': "?w' = ?w1\<lparr> microtasks := [], callers := (callers ?w1)(c \<mapsto> Done (Rejected ProcessExited)) \<rparr>"
      using st c by simp
    have a: "state ?w' = STOPPED" "\<not> crashed ?w'" "stats ?w' = stats w"
      using cb assms(1) by (simp_all add: w')
    have b: "callers ?w' c = Some (Done (Rejected ProcessExited))" by (simp add: w')
    show ?thesis
      using complete_respawns[OF a(1,2), of _ rt] a(1,3) b
      by (auto simp: Let_def)
  qed
  from gen call show ?thesis by (simp add: Let_def)
qed

theorem exit_rejects_open_turn_witness:
  "\<not> crashed busy_provider \<and> microtasks busy_provider = []
   \<and> pendingPromise busy_provider = Some \<lparr> turn = CallerTurn 1, response = [], startTime = 20 \<rparr>
   \<and> spawned busy_provider 1 \<and> 1 \<notin> exited busy_provider
   \<and> settled (step example_runtime busy_provider (30, ProcessExit 1)) (CallerTurn 1)
       = Some (Rejected ProcessExited)
   \<and> callers (step example_runtime busy_provider (30, ProcessExit 1)) 1
       = Some (Done (Rejected ProcessExited))
   \<and> state (step example_runtime busy_provider (30, ProcessExit 1)) = STOPPED
   \<and> callers (step example_runtime busy_provider (30, ProcessExit 1)) 2 = None
   \<and> (\<exists>pr. process (step example_runtime (step example_runtime busy_provider (30, ProcessExit 1))
                      (40, CallComplete 2 ''again'' None)) = Some pr \<and> handle pr = 2)"
proof -
  have a: "\<not> crashed busy_provider" "microtasks busy_provider = []"
    "spawned busy_provider 1" "1 \<notin> exited busy_provider" "coldStarts (stats busy_provider) = 1"
    using busy_provider_facts by (simp_all add: spawned_def)
  have c: "callers (step example_runtime busy_provider (30, ProcessExit 1)) 2 = None"
    by (simp add: busy_provider_def model_defs example_defs)
  note t = exit_rejects_open_turn[OF a(1,2) busy_provider_pending a(3,4), of example_runtime 30,
             unfolded Let_def]
  from t have g: "settled (step example_runtime busy_provider (30, ProcessExit 1)) (CallerTurn 1)
         = Some (Rejected ProcessExited)
       \<and> callers (step example_runtime busy_provider (30, ProcessExit 1)) 1
         = Some (Done (Rejected ProcessExited))
       \<and> state (step example_runtime busy_provider (30, ProcessExit 1)) = STOPPED"
    by simp
  from t have "\<forall>c' now' prompt sp.
      callers (step example_runtime busy_provider (30, ProcessExit 1)) c' = None \<longrightarrow>
      (\<exists>pr. process (step example_runtime (step example_runtime busy_provider (30, ProcessExit 1))
                      (now', CallComplete c' prompt sp)) = Some pr
            \<and> handle pr = coldStarts (stats busy_provider) + 1)"
    by simp
  with c a(5) have r: "\<exists>pr. process (step example_runtime
        (step example_runtime busy_provider (30, ProcessExit 1))
        (40, CallComplete 2 ''again'' None)) = Some pr \<and> handle pr = 2"
    by (metis one_add_one)
  from g r a c busy_provider_pending show ?thesis by simp
qed

text \<open>
  C4 on the code. The call \<open>complete()\<close> number 0 starts the process, and the process
  exits while the warmup turn is open. The exit listener sets \<open>STOPPED\<close> and rejects the
  turn with the process-exited error; the \<open>.catch\<close> of the warmup then finds no process
  and overwrites the state with \<open>ERROR\<close>. The next call of \<open>complete()\<close> is rejected
  with \<open>Provider not ready: ERROR\<close> and spawns nothing.
\<close>

theorem exit_during_warmup_ends_in_error:
  "pendingPromise warming_provider = Some \<lparr> turn = WarmupTurn 1, response = [], startTime = 0 \<rparr>
   \<and> failed_provider = step example_runtime warming_provider (10, ProcessExit 1)
   \<and> settled failed_provider (WarmupTurn 1) = Some (Rejected ProcessExited)
   \<and> state failed_provider = ERROR
   \<and> state failed_provider \<noteq> STOPPED
   \<and> callers (step example_runtime failed_provider (20, CallComplete 1 ''again'' None)) 1
       = Some (Done (Rejected (ProviderNotReady ERROR)))
   \<and> io (step example_runtime failed_provider (20, CallComplete 1 ''again'' None)) = io failed_provider
   \<and> process (step example_runtime failed_provider (20, CallComplete 1 ''again'' None)) = None
   \<and> coldStarts (stats (step example_runtime failed_provider (20, CallComplete 1 ''again'' None))) = 1"
proof -
  have 1: "failed_provider = step example_runtime warming_provider (10, ProcessExit 1)"
    by (simp add: failed_provider_def warming_provider_def run_def)
  have 2: "pendingPromise warming_provider = Some \<lparr> turn = WarmupTurn 1, response = [], startTime = 0 \<rparr>"
    by (simp add: warming_provider_def model_defs example_defs)
  have 3: "settled failed_provider (WarmupTurn 1) = Some (Rejected ProcessExited)
           \<and> state failed_provider = ERROR"
    by (simp add: failed_provider_def model_defs example_defs)
  have 4: "callers (step example_runtime failed_provider (20, CallComplete 1 ''again'' None)) 1
       = Some (Done (Rejected (ProviderNotReady ERROR)))
   \<and> io (step example_runtime failed_provider (20, CallComplete 1 ''again'' None)) = io failed_provider
   \<and> process (step example_runtime failed_provider (20, CallComplete 1 ''again'' None)) = None
   \<and> coldStarts (stats (step example_runtime failed_provider (20, CallComplete 1 ''again'' None))) = 1"
    by (simp add: failed_provider_def model_defs example_defs)
  from 1 2 3 4 show ?thesis by simp
qed

section \<open>Warmup\<close>

text \<open>The callback of the warmup timer acts only in state \<open>STARTING\<close>.\<close>

lemma warmup_timer_idle:
  "state w \<noteq> STARTING \<Longrightarrow> WarmupTimeout k \<in> timers w \<Longrightarrow>
   callback rt now (TimerFires (WarmupTimeout k)) w = w\<lparr> timers := timers w - {WarmupTimeout k} \<rparr>"
  by (simp add: warmup_timeout_def)

text \<open>
  \<open>_sendMessage\<close> sets \<open>BUSY\<close> before \<open>_startPersistentProcess\<close> returns, and when it
  throws, the \<open>.catch\<close> runs in the same macrotask: no macrotask of a run ends in state
  \<open>STARTING\<close>.
\<close>

lemma halted_not_starting: "halted w \<Longrightarrow> state w \<noteq> STARTING"
  by (simp add: halted_def)

lemma never_starting:
  assumes "admissible rt (new_provider t) tes"
  shows "state (run rt (new_provider t) tes) \<noteq> STARTING"
proof -
  have "settled_down (run rt (new_provider t) tes) \<or> halted (run rt (new_provider t) tes)"
    using settled_down_new assms by (intro settled_down_run) simp_all
  then show ?thesis
    using settled_down_not_starting halted_not_starting by blast
qed

text \<open>
  C8 on the code. A provider is initialised and the subprocess stays silent. The
  warmup timer is armed, but the state is already \<open>BUSY\<close> when the start returns, so
  when the grace period elapses the callback does nothing: the state stays \<open>BUSY\<close>
  and the promise of \<open>initialize()\<close> stays unsettled. (When the warmup turn completes,
  the state becomes \<open>READY\<close> and the promise resolves with \<open>true\<close>.)
\<close>

theorem warmup_grace_period_is_ignored:
  \<open>WarmupTimeout 1 \<in> timers (run example_runtime (new_provider 0) [(0, CallInitialize 0)])
   \<and> state (run example_runtime (new_provider 0) [(0, CallInitialize 0)]) = BUSY
   \<and> state (run example_runtime (new_provider 0) silent_warmup) = BUSY
   \<and> initSettled (run example_runtime (new_provider 0) silent_warmup) 1 = None
   \<and> crashed (run example_runtime (new_provider 0) silent_warmup) = False
   \<and> state (run example_runtime (new_provider 0)
         [(0, CallInitialize 0),
          (10, StdoutData 1 (''{"type":"result","result":"ok"}'' @ [CHR 0x0A]))]) = READY
   \<and> initSettled (run example_runtime (new_provider 0)
         [(0, CallInitialize 0),
          (10, StdoutData 1 (''{"type":"result","result":"ok"}'' @ [CHR 0x0A]))]) 1
       = Some (Resolved (JBool True))\<close>
  by (simp add: silent_warmup_def model_defs example_defs)

section \<open>Shutdown\<close>

text \<open>
  C7 on the code. \<open>shutdown()\<close> is called and the process exits 180 ms later. The exit
  listener cancels the force-kill timer and resolves the shutdown, but the 1000 ms
  timer stays armed. A call of \<open>complete()\<close> then starts a new process, and when the
  timer fires it sends \<open>SIGTERM\<close> to that new process, after the exit was observed.
\<close>

theorem sigterm_timer_survives_exit:
  \<open>SigtermTimeout 1 \<in> timers (run example_runtime (new_provider 0) shutdown_then_exit)
   \<and> ForceKillTimeout 1 \<notin> timers (run example_runtime (new_provider 0) shutdown_then_exit)
   \<and> 1 \<in> exited (run example_runtime (new_provider 0) shutdown_then_exit)
   \<and> shutdownSettled (run example_runtime (new_provider 0) shutdown_then_exit) 1
   \<and> io (run example_runtime (new_provider 0) shutdown_then_exit)
       = [Spawn 1, StdinWrite 1 (''{}'' @ [CHR 0x0A]), StdinEnd 1]
   \<and> io (run example_runtime (new_provider 0)
           (shutdown_then_exit @
            [(500, CallComplete 1 ''hello'' None), (1020, TimerFires (SigtermTimeout 1))]))
       = [Spawn 1, StdinWrite 1 (''{}'' @ [CHR 0x0A]), StdinEnd 1,
          Spawn 2, StdinWrite 2 (''{}'' @ [CHR 0x0A]), Kill 2 SIGTERM]\<close>
  by (simp add: shutdown_then_exit_def model_defs example_defs)

end
